theory Spec2Isabelle
  imports Main
begin

section \<open>Data model\<close>

text \<open>
  The repository is a header-only C++ library: \<^verbatim>\<open>array_ptr.h\<close> (the owning pointer
  \<^verbatim>\<open>ArrayPtr<T>\<close>) and \<^verbatim>\<open>simple_vector.h\<close> (the container \<^verbatim>\<open>SimpleVector<Type>\<close>).

  \<^item> A heap array of \<open>n\<close> slots is the list of its slot contents, of length \<open>n\<close>.
    \<^verbatim>\<open>ArrayPtr(size_t)\<close> never allocates a zero-length array (it stores \<^verbatim>\<open>nullptr\<close>
    for size 0), and copying an \<^verbatim>\<open>ArrayPtr\<close> is deleted, so the buffer of a vector is
    either \<^verbatim>\<open>nullptr\<close>, modelled by \<open>[]\<close>, or an array of at least one slot that no
    other object refers to. This is why a value (the list) can stand for the pointer.
  \<^item> \<^verbatim>\<open>size_t\<close> is \<open>nat\<close>. The fields satisfy \<^verbatim>\<open>size_ <= capacity_\<close> and
    \<^verbatim>\<open>capacity_\<close> is at most the number of slots of an existing array (the invariant
    \<open>vector_inv\<close> below, preserved by every operation), and an array has at most
    \<^verbatim>\<open>PTRDIFF_MAX\<close> bytes; hence \<^verbatim>\<open>capacity_ * 2\<close> and \<^verbatim>\<open>++size_\<close> do not wrap.
    Allocation is assumed to succeed (\<^verbatim>\<open>std::bad_alloc\<close> is outside the model).
  \<^item> An iterator is a raw pointer into the buffer; the pointer \<^verbatim>\<open>begin() + k\<close> is
    modelled by the offset \<open>k\<close>. So \<^verbatim>\<open>begin()\<close> is \<open>0\<close> and \<^verbatim>\<open>end()\<close> is the size.
  \<^item> Elements are values: moving an element is modelled as copying it. The slot an
    element was moved from is either overwritten next, or left beyond \<^verbatim>\<open>size_\<close>, or
    belongs to a buffer that is destroyed.
  \<^item> The element type enters through two values: \<open>dflt\<close> is \<^verbatim>\<open>Type{}\<close>, and \<open>ini\<close> is
    what a slot of \<^verbatim>\<open>new T[n]\<close> holds before anything is assigned to it (the default
    constructed object of a class type; for a scalar type the slot is indeterminate, and
    every theorem holds whatever \<open>ini\<close> is).
  \<^item> A failed \<^verbatim>\<open>assert\<close> and the exception \<^verbatim>\<open>std::out_of_range\<close> are values of
    \<open>error\<close>.
  \<^item> \<^verbatim>\<open>PushBack\<close> and \<^verbatim>\<open>Insert\<close> take their argument by reference (\<^verbatim>\<open>const Type&\<close>) and
    read it only when they assign it to its slot. The argument is therefore a \<open>ref\<close>: a
    reference to an object outside the vector's buffer, or to a slot of the buffer the
    vector owns when the call is made (as in \<^verbatim>\<open>v.PushBack(v[0])\<close>), and \<open>read_ref\<close> reads it
    at the point where the source does. The \<^verbatim>\<open>Type&&\<close> overloads read their argument at the
    same points and leave the argument moved-from; as moving is modelled as copying, the
    model of these overloads is exact for an argument outside the vector and for element
    types whose move leaves the source unchanged. The two overloads of \<^verbatim>\<open>At\<close> and of
    \<^verbatim>\<open>operator[]\<close> differ in constness only.
  \<^item> Names follow the source. The fields \<^verbatim>\<open>items_\<close>, \<^verbatim>\<open>size_\<close>, \<^verbatim>\<open>capacity_\<close> are
    \<open>items\<close>, \<open>vsize\<close>, \<open>capacity\<close>; \<^verbatim>\<open>begin\<close> and \<^verbatim>\<open>end\<close> are \<open>begin_it\<close> and
    \<open>end_it\<close>; \<^verbatim>\<open>operator[]\<close> is \<open>index\<close>, \<^verbatim>\<open>operator<=>\<close> is \<open>cmp3\<close>, and the relational
    operators are \<open>op_eq\<close>, \<open>op_ne\<close>, \<open>op_lt\<close>, \<open>op_le\<close>, \<open>op_gt\<close>, \<open>op_ge\<close>; the
    constructors are \<open>SimpleVector_default\<close>, \<open>SimpleVector_sized\<close>, \<open>SimpleVector_filled\<close>,
    \<open>SimpleVector_init\<close>, \<open>SimpleVector_reserved\<close>, \<open>SimpleVector_copy\<close> and
    \<open>SimpleVector_move\<close>, and the assignments \<open>copy_assign\<close> and \<open>move_assign\<close>.
\<close>

datatype error = out_of_range | assertion_failed

record 'a SimpleVector =
  items :: "'a list"
  vsize :: nat
  capacity :: nat

text \<open>\<^verbatim>\<open>ReserveProxyObj\<close> and the free function \<^verbatim>\<open>Reserve(capacity_to_reserve)\<close>.\<close>

datatype ReserveProxyObj = ReserveProxyObj (proxy_capacity: nat)

definition Reserve_proxy :: "nat \<Rightarrow> ReserveProxyObj" where
  "Reserve_proxy capacity_to_reserve = ReserveProxyObj capacity_to_reserve"

subsection \<open>ArrayPtr\<close>

text \<open>\<^verbatim>\<open>ArrayPtr()\<close> holds \<^verbatim>\<open>nullptr\<close>; \<^verbatim>\<open>ArrayPtr(size)\<close> holds
  \<^verbatim>\<open>size > 0 ? new T[size] : nullptr\<close>.\<close>

definition ArrayPtr_null :: "'a list" where
  "ArrayPtr_null = []"

definition ArrayPtr_new :: "'a \<Rightarrow> nat \<Rightarrow> 'a list" where
  "ArrayPtr_new ini size1 = (if size1 > 0 then replicate size1 ini else [])"

subsection \<open>The standard algorithms the vector calls\<close>

text \<open>
  Each algorithm is the loop of the C++ standard, on offsets into arrays.
  \<^verbatim>\<open>std::generate(first, last, g)\<close> and \<^verbatim>\<open>std::fill(first, last, value)\<close> assign to
  every slot of a range.
\<close>

function generate :: "'a list \<Rightarrow> nat \<Rightarrow> nat \<Rightarrow> (unit \<Rightarrow> 'a) \<Rightarrow> 'a list" where
  "generate a first1 last1 g =
     (if first1 < last1 then generate (a[first1 := g ()]) (Suc first1) last1 g else a)"
  by pat_completeness auto
termination
  by (relation "measure (\<lambda>(a, first1, last1, g). last1 - first1)") auto

function fill :: "'a list \<Rightarrow> nat \<Rightarrow> nat \<Rightarrow> 'a \<Rightarrow> 'a list" where
  "fill a first1 last1 val =
     (if first1 < last1 then fill (a[first1 := val]) (Suc first1) last1 val else a)"
  by pat_completeness auto
termination
  by (relation "measure (\<lambda>(a, first1, last1, val). last1 - first1)") auto

text \<open>
  \<^verbatim>\<open>std::copy(first, last, d_first)\<close> and \<^verbatim>\<open>std::move(first, last, d_first)\<close> from one
  array \<open>src\<close> into another array \<open>dst\<close>: \<^verbatim>\<open>while (first != last) *d_first++ = *first++\<close>.
\<close>

function copy :: "'a list \<Rightarrow> nat \<Rightarrow> nat \<Rightarrow> 'a list \<Rightarrow> nat \<Rightarrow> 'a list" where
  "copy src first1 last1 dst d_first =
     (if first1 < last1
      then copy src (Suc first1) last1 (dst[d_first := src ! first1]) (Suc d_first)
      else dst)"
  by pat_completeness auto
termination
  by (relation "measure (\<lambda>(src, first1, last1, dst, d_first). last1 - first1)") auto

text \<open>
  \<^verbatim>\<open>std::move(first, last, d_first)\<close> inside one array (source and destination
  overlap in \<^verbatim>\<open>Erase\<close>): every read sees the writes made before it.
\<close>

function move_range :: "'a list \<Rightarrow> nat \<Rightarrow> nat \<Rightarrow> nat \<Rightarrow> 'a list" where
  "move_range a first1 last1 d_first =
     (if first1 < last1
      then move_range (a[d_first := a ! first1]) (Suc first1) last1 (Suc d_first)
      else a)"
  by pat_completeness auto
termination
  by (relation "measure (\<lambda>(a, first1, last1, d_first). last1 - first1)") auto

text \<open>
  \<^verbatim>\<open>std::copy_backward(first, last, d_last)\<close> inside one array (\<^verbatim>\<open>Insert\<close>):
  \<^verbatim>\<open>while (first != last) *(--d_last) = *(--last)\<close>.
\<close>

function copy_backward :: "'a list \<Rightarrow> nat \<Rightarrow> nat \<Rightarrow> nat \<Rightarrow> 'a list" where
  "copy_backward a first1 last1 d_last =
     (if first1 < last1
      then copy_backward (a[d_last - 1 := a ! (last1 - 1)]) first1 (last1 - 1) (d_last - 1)
      else a)"
  by pat_completeness auto
termination
  by (relation "measure (\<lambda>(a, first1, last1, d_last). last1 - first1)") auto

text \<open>
  \<^verbatim>\<open>std::strong_ordering\<close>, the three-way comparison of two elements of a totally
  ordered type, and \<^verbatim>\<open>std::lexicographical_compare_three_way\<close> on two ranges.
\<close>

datatype strong_ordering = less | equal | greater

definition compare_three_way :: "'a::linorder \<Rightarrow> 'a \<Rightarrow> strong_ordering" where
  "compare_three_way x y = (if x < y then less else if y < x then greater else equal)"

fun lexicographical_compare_three_way :: "'a::linorder list \<Rightarrow> 'a list \<Rightarrow> strong_ordering" where
  "lexicographical_compare_three_way (x # xs) (y # ys) =
     (let c = compare_three_way x y
      in if c \<noteq> equal then c else lexicographical_compare_three_way xs ys)"
| "lexicographical_compare_three_way (x # xs) [] = greater"
| "lexicographical_compare_three_way [] (y # ys) = less"
| "lexicographical_compare_three_way [] [] = equal"

section \<open>SimpleVector\<close>

subsection \<open>Queries and iterators\<close>

definition GetSize :: "'a SimpleVector \<Rightarrow> nat" where
  "GetSize v = vsize v"

definition GetCapacity :: "'a SimpleVector \<Rightarrow> nat" where
  "GetCapacity v = capacity v"

definition IsEmpty :: "'a SimpleVector \<Rightarrow> bool" where
  "IsEmpty v = (vsize v = 0)"

definition IsFull :: "'a SimpleVector \<Rightarrow> bool" where
  "IsFull v = (vsize v = capacity v)"

definition begin_it :: "'a SimpleVector \<Rightarrow> nat" where
  "begin_it v = 0"

definition end_it :: "'a SimpleVector \<Rightarrow> nat" where
  "end_it v = 0 + vsize v"

text \<open>The range \<^verbatim>\<open>[begin(), end())\<close> as a sequence of values: what iteration visits.\<close>

definition elements :: "'a SimpleVector \<Rightarrow> 'a list" where
  "elements v = take (end_it v - begin_it v) (drop (begin_it v) (items v))"

subsection \<open>Constructors\<close>

definition SimpleVector_default :: "'a SimpleVector" where
  "SimpleVector_default = \<lparr>items = ArrayPtr_null, vsize = 0, capacity = 0\<rparr>"

definition SimpleVector_sized :: "'a \<Rightarrow> 'a \<Rightarrow> nat \<Rightarrow> 'a SimpleVector" where
  "SimpleVector_sized ini dflt size1 =
     (let v = \<lparr>items = ArrayPtr_new ini size1, vsize = size1, capacity = size1\<rparr>
      in v\<lparr>items := generate (items v) (begin_it v) (end_it v) (\<lambda>_. dflt)\<rparr>)"

definition SimpleVector_filled :: "'a \<Rightarrow> nat \<Rightarrow> 'a \<Rightarrow> 'a SimpleVector" where
  "SimpleVector_filled ini size1 val =
     (let v = \<lparr>items = ArrayPtr_new ini size1, vsize = size1, capacity = size1\<rparr>
      in v\<lparr>items := fill (items v) (begin_it v) (end_it v) val\<rparr>)"

definition SimpleVector_init :: "'a \<Rightarrow> 'a list \<Rightarrow> 'a SimpleVector" where
  "SimpleVector_init ini init =
     (let v = \<lparr>items = ArrayPtr_new ini (length init), vsize = length init,
                capacity = length init\<rparr>
      in v\<lparr>items := copy init 0 (length init) (items v) (begin_it v)\<rparr>)"

definition SimpleVector_reserved :: "'a \<Rightarrow> ReserveProxyObj \<Rightarrow> 'a SimpleVector" where
  "SimpleVector_reserved ini reserved =
     \<lparr>items = ArrayPtr_new ini (proxy_capacity reserved), vsize = 0,
      capacity = proxy_capacity reserved\<rparr>"

definition SimpleVector_copy :: "'a \<Rightarrow> 'a SimpleVector \<Rightarrow> 'a SimpleVector" where
  "SimpleVector_copy ini other =
     (let v = \<lparr>items = ArrayPtr_new ini (vsize other), vsize = vsize other,
                capacity = vsize other\<rparr>
      in v\<lparr>items := copy (items other) (begin_it other) (end_it other) (items v) (begin_it v)\<rparr>)"

text \<open>
  The move constructor returns the new vector and the state it leaves in \<open>other\<close>:
  \<^verbatim>\<open>ArrayPtr(ArrayPtr&&)\<close> and \<^verbatim>\<open>std::exchange\<close> leave \<^verbatim>\<open>nullptr\<close>, 0 and 0.
\<close>

definition SimpleVector_move :: "'a SimpleVector \<Rightarrow> 'a SimpleVector \<times> 'a SimpleVector" where
  "SimpleVector_move other =
     (\<lparr>items = items other, vsize = vsize other, capacity = capacity other\<rparr>,
      other\<lparr>items := ArrayPtr_null, vsize := 0, capacity := 0\<rparr>)"

subsection \<open>Member functions\<close>

text \<open>\<open>swap v other\<close> returns the new states of \<^verbatim>\<open>*this\<close> and of \<open>other\<close>.\<close>

definition swap :: "'a SimpleVector \<Rightarrow> 'a SimpleVector \<Rightarrow> 'a SimpleVector \<times> 'a SimpleVector" where
  "swap v other =
     (v\<lparr>items := items other, vsize := vsize other, capacity := capacity other\<rparr>,
      other\<lparr>items := items v, vsize := vsize v, capacity := capacity v\<rparr>)"

definition Clear :: "'a SimpleVector \<Rightarrow> 'a SimpleVector" where
  "Clear v = v\<lparr>vsize := 0\<rparr>"

definition NewCapacity :: "'a SimpleVector \<Rightarrow> nat \<Rightarrow> nat" where
  "NewCapacity v new_size = max (capacity v * 2) new_size"

definition IncCapacity :: "'a \<Rightarrow> 'a \<Rightarrow> 'a SimpleVector \<Rightarrow> 'a SimpleVector" where
  "IncCapacity ini dflt v =
     (let buffer = SimpleVector_sized ini dflt (NewCapacity v 1);
          buffer = buffer\<lparr>vsize := vsize v\<rparr>;
          buffer = buffer\<lparr>items := copy (items v) (begin_it v) (end_it v) (items buffer)
                                      (begin_it buffer)\<rparr>
      in fst (swap v buffer))"

text \<open>
  A reference argument (\<^verbatim>\<open>const Type& item\<close>, \<^verbatim>\<open>const Type& value\<close>). \<open>outside x\<close> refers
  to an object that is not in the vector's buffer and holds \<open>x\<close> throughout the call.
  \<open>slot k\<close> refers to slot \<open>k\<close> of the array the vector owns when the call is made, the
  object \<^verbatim>\<open>begin()[k]\<close>.

  \<open>read_ref freed deleted arr r\<close> is what reading \<open>r\<close> gives, where \<open>arr\<close> is the present
  content of that array and \<open>deleted\<close> says whether it has been deleted since the call was
  made. \<open>IncCapacity\<close> moves the elements to a new array and deletes the old one (its local
  \<open>buffer\<close> is destroyed holding it), so a \<open>slot\<close> reference dangles afterwards and
  reading it is undefined behaviour. The model gives such a read the value \<open>freed k\<close>, which
  stands for whatever the deleted memory is found to hold; every theorem holds for every
  \<open>freed\<close>.
\<close>

datatype 'a ref = outside 'a | slot nat

definition read_ref :: "(nat \<Rightarrow> 'a) \<Rightarrow> bool \<Rightarrow> 'a list \<Rightarrow> 'a ref \<Rightarrow> 'a" where
  "read_ref freed deleted arr r =
     (case r of outside x \<Rightarrow> x | slot k \<Rightarrow> (if deleted then freed k else arr ! k))"

definition PushBack ::
  "'a \<Rightarrow> 'a \<Rightarrow> (nat \<Rightarrow> 'a) \<Rightarrow> 'a SimpleVector \<Rightarrow> 'a ref \<Rightarrow> 'a SimpleVector" where
  "PushBack ini dflt freed v item =
     (let old_array_deleted = IsFull v;
          v = (if IsFull v then IncCapacity ini dflt v else v)
      in v\<lparr>items := (items v)[vsize v := read_ref freed old_array_deleted (items v) item],
           vsize := Suc (vsize v)\<rparr>)"

text \<open>
  \<open>Insert\<close> and \<open>Erase\<close> take the position as an offset from \<^verbatim>\<open>begin()\<close> and return
  the new state with the returned iterator, or the failed assertion.
\<close>

definition Insert ::
  "'a \<Rightarrow> 'a \<Rightarrow> (nat \<Rightarrow> 'a) \<Rightarrow> 'a SimpleVector \<Rightarrow> nat \<Rightarrow> 'a ref \<Rightarrow>
     error + ('a SimpleVector \<times> nat)" where
  "Insert ini dflt freed v pos val =
     (if begin_it v \<le> pos \<and> pos \<le> end_it v then
        (let offset = pos - begin_it v;
             old_array_deleted = IsFull v;
             v = (if IsFull v then IncCapacity ini dflt v else v);
             v = v\<lparr>vsize := Suc (vsize v)\<rparr>;
             it = begin_it v + offset;
             v = v\<lparr>items := copy_backward (items v) it (end_it v - 1) (end_it v)\<rparr>;
             v = v\<lparr>items := (items v)[it := read_ref freed old_array_deleted (items v) val]\<rparr>
         in Inr (v, it))
      else Inl assertion_failed)"

definition PopBack :: "'a SimpleVector \<Rightarrow> 'a SimpleVector" where
  "PopBack v = (if \<not> IsEmpty v then v\<lparr>vsize := vsize v - 1\<rparr> else v)"

definition Erase :: "'a SimpleVector \<Rightarrow> nat \<Rightarrow> error + ('a SimpleVector \<times> nat)" where
  "Erase v pos =
     (if begin_it v \<le> pos \<and> pos < end_it v then
        (let erase_pos = pos;
             v = v\<lparr>items := move_range (items v) (erase_pos + 1) (end_it v) erase_pos\<rparr>;
             v = v\<lparr>vsize := vsize v - 1\<rparr>
         in Inr (v, erase_pos))
      else Inl assertion_failed)"

text \<open>
  \<open>index\<close> is \<^verbatim>\<open>operator[]\<close>. \<open>At\<close> returns its result together with the state of
  the vector after the call, also when it throws.
\<close>

definition index :: "'a SimpleVector \<Rightarrow> nat \<Rightarrow> error + 'a" where
  "index v i = (if i < vsize v then Inr (items v ! i) else Inl assertion_failed)"

definition At :: "'a SimpleVector \<Rightarrow> nat \<Rightarrow> (error + 'a) \<times> 'a SimpleVector" where
  "At v i = (if i \<ge> vsize v then (Inl out_of_range, v) else (Inr (items v ! i), v))"

definition Resize :: "'a \<Rightarrow> 'a \<Rightarrow> 'a SimpleVector \<Rightarrow> nat \<Rightarrow> 'a SimpleVector" where
  "Resize ini dflt v new_size =
     (let v =
        (if new_size > capacity v then
           (let new_capacity = NewCapacity v new_size;
                buffer = SimpleVector_sized ini dflt new_capacity;
                buffer = buffer\<lparr>items := copy (items v) (begin_it v) (end_it v) (items buffer)
                                            (begin_it buffer)\<rparr>
            in fst (swap v buffer))
         else if new_size > vsize v then
           v\<lparr>items := generate (items v) (end_it v) (begin_it v + new_size) (\<lambda>_. dflt)\<rparr>
         else v)
      in v\<lparr>vsize := new_size\<rparr>)"

definition Reserve :: "'a \<Rightarrow> 'a \<Rightarrow> 'a SimpleVector \<Rightarrow> nat \<Rightarrow> 'a SimpleVector" where
  "Reserve ini dflt v new_capacity =
     (if new_capacity > capacity v then
        (let size_save = vsize v;
             v = Resize ini dflt v new_capacity;
             v = v\<lparr>vsize := size_save\<rparr>;
             v = v\<lparr>capacity := new_capacity\<rparr>
         in v)
      else v)"

subsection \<open>Assignment\<close>

text \<open>
  Both assignment operators compare the addresses of \<^verbatim>\<open>*this\<close> and \<open>other\<close>, so they
  are modelled on a store: the list of the vector objects that exist, an object's address
  being its index in the list. In the copy assignment, \<open>other_copy\<close> is a local object;
  it is destroyed on return, with the buffer \<^verbatim>\<open>*this\<close> had before.
\<close>

type_synonym 'a store = "'a SimpleVector list"

definition copy_assign :: "'a \<Rightarrow> 'a store \<Rightarrow> nat \<Rightarrow> nat \<Rightarrow> 'a store" where
  "copy_assign ini s this other =
     (if other \<noteq> this then
        (if IsEmpty (s ! other) then
           s[this := (Clear (s ! this))\<lparr>capacity := 0, items := ArrayPtr_null\<rparr>]
         else
           (let other_copy = SimpleVector_copy ini (s ! other)
            in s[this := fst (swap (s ! this) other_copy)]))
      else s)"

definition move_assign :: "'a store \<Rightarrow> nat \<Rightarrow> nat \<Rightarrow> 'a store" where
  "move_assign s this other =
     (if this \<noteq> other then
        s[this := fst (swap (s ! this) (s ! other)), other := snd (swap (s ! this) (s ! other))]
      else s)"

subsection \<open>Comparison operators\<close>

definition cmp3 :: "'a::linorder SimpleVector \<Rightarrow> 'a SimpleVector \<Rightarrow> strong_ordering" where
  "cmp3 lhs rhs = lexicographical_compare_three_way (elements lhs) (elements rhs)"

definition op_eq :: "'a::linorder SimpleVector \<Rightarrow> 'a SimpleVector \<Rightarrow> bool" where
  "op_eq lhs rhs = (cmp3 lhs rhs = equal)"

definition op_ne :: "'a::linorder SimpleVector \<Rightarrow> 'a SimpleVector \<Rightarrow> bool" where
  "op_ne lhs rhs = (cmp3 lhs rhs \<noteq> equal)"

definition op_lt :: "'a::linorder SimpleVector \<Rightarrow> 'a SimpleVector \<Rightarrow> bool" where
  "op_lt lhs rhs = (cmp3 lhs rhs = less)"

definition op_le :: "'a::linorder SimpleVector \<Rightarrow> 'a SimpleVector \<Rightarrow> bool" where
  "op_le lhs rhs = (cmp3 lhs rhs \<noteq> greater)"

definition op_gt :: "'a::linorder SimpleVector \<Rightarrow> 'a SimpleVector \<Rightarrow> bool" where
  "op_gt lhs rhs = (cmp3 lhs rhs = greater)"

definition op_ge :: "'a::linorder SimpleVector \<Rightarrow> 'a SimpleVector \<Rightarrow> bool" where
  "op_ge lhs rhs = (cmp3 lhs rhs \<noteq> less)"

subsection \<open>The representation invariant\<close>

text \<open>
  \<^verbatim>\<open>size_ <= capacity_\<close>, and the buffer has at least \<^verbatim>\<open>capacity_\<close> slots, so that
  every slot in \<^verbatim>\<open>[0, size_)\<close> is a slot of the owned array.
\<close>

definition vector_inv :: "'a SimpleVector \<Rightarrow> bool" where
  "vector_inv v = (vsize v \<le> capacity v \<and> capacity v \<le> length (items v))"

section \<open>The loops of the standard algorithms\<close>

text \<open>
  Each loop writes the slots of its destination range and no other slot; the length of the
  array never changes. The recursive equations are unfolded one step at a time.
\<close>

declare generate.simps [simp del] fill.simps [simp del] copy.simps [simp del]
  move_range.simps [simp del] copy_backward.simps [simp del]

lemma length_generate [simp]: "length (generate a f l g) = length a"
  by (induction a f l g rule: generate.induct) (subst generate.simps, simp)

lemma nth_generate:
  "i < length a \<Longrightarrow> generate a f l g ! i = (if f \<le> i \<and> i < l then g () else a ! i)"
proof (induction a f l g rule: generate.induct)
  case (1 a f l g)
  show ?case
  proof (cases "f < l")
    case True
    with 1 show ?thesis
      by (subst generate.simps) (auto simp: nth_list_update)
  next
    case False
    then show ?thesis by (subst generate.simps) auto
  qed
qed

lemma length_fill [simp]: "length (fill a f l x) = length a"
  by (induction a f l x rule: fill.induct) (subst fill.simps, simp)

lemma nth_fill:
  "i < length a \<Longrightarrow> fill a f l x ! i = (if f \<le> i \<and> i < l then x else a ! i)"
proof (induction a f l x rule: fill.induct)
  case (1 a f l x)
  show ?case
  proof (cases "f < l")
    case True
    with 1 show ?thesis
      by (subst fill.simps) (auto simp: nth_list_update)
  next
    case False
    then show ?thesis by (subst fill.simps) auto
  qed
qed

lemma length_copy [simp]: "length (copy src f l dst d) = length dst"
  by (induction src f l dst d rule: copy.induct) (subst copy.simps, simp)

lemma nth_copy:
  "i < length dst \<Longrightarrow>
   copy src f l dst d ! i = (if d \<le> i \<and> i < d + (l - f) then src ! (f + (i - d)) else dst ! i)"
proof (induction src f l dst d arbitrary: rule: copy.induct)
  case (1 src f l dst d)
  show ?case
  proof (cases "f < l")
    case True
    have eq: "i = d \<Longrightarrow> f + (i - d) = f" by simp
    have "d \<le> i \<and> i < d + (l - f) \<longleftrightarrow> i = d \<or> (Suc d \<le> i \<and> i < Suc d + (l - Suc f))"
      using True by arith
    moreover have "Suc d \<le> i \<Longrightarrow> Suc f + (i - Suc d) = f + (i - d)" by arith
    ultimately show ?thesis
      using 1 True by (subst copy.simps) (auto simp: nth_list_update)
  next
    case False
    then show ?thesis by (subst copy.simps) auto
  qed
qed

lemma length_move_range [simp]: "length (move_range a f l d) = length a"
  by (induction a f l d rule: move_range.induct) (subst move_range.simps, simp)

lemma nth_move_range:
  "d \<le> f \<Longrightarrow> l \<le> length a \<Longrightarrow> i < length a \<Longrightarrow>
   move_range a f l d ! i = (if d \<le> i \<and> i < d + (l - f) then a ! (f + (i - d)) else a ! i)"
proof (induction a f l d rule: move_range.induct)
  case (1 a f l d)
  show ?case
  proof (cases "f < l")
    case True
    have "d \<le> i \<and> i < d + (l - f) \<longleftrightarrow> i = d \<or> (Suc d \<le> i \<and> i < Suc d + (l - Suc f))"
      using True by arith
    moreover have "Suc d \<le> i \<Longrightarrow> Suc f + (i - Suc d) = f + (i - d)" by arith
    moreover have "Suc d \<le> i \<Longrightarrow> f + (i - d) \<noteq> d" using \<open>d \<le> f\<close> by arith
    moreover have "d < length a" using True 1(2,3) by arith
    ultimately show ?thesis
      using 1 True by (subst move_range.simps) (auto simp: nth_list_update)
  next
    case False
    then show ?thesis by (subst move_range.simps) auto
  qed
qed

lemma length_copy_backward [simp]: "length (copy_backward a f l d) = length a"
  by (induction a f l d rule: copy_backward.induct) (subst copy_backward.simps, simp)

lemma nth_copy_backward:
  "l \<le> d \<Longrightarrow> d \<le> length a \<Longrightarrow> i < length a \<Longrightarrow>
   copy_backward a f l d ! i = (if d - (l - f) \<le> i \<and> i < d then a ! (i - (d - l)) else a ! i)"
proof (induction a f l d rule: copy_backward.induct)
  case (1 a f l d)
  show ?case
  proof (cases "f < l")
    case True
    with 1 show ?thesis
      by (subst copy_backward.simps) (auto simp: nth_list_update)
  next
    case False
    then show ?thesis by (subst copy_backward.simps) auto
  qed
qed

text \<open>The same facts on whole arrays, for the ranges the vector passes.\<close>

lemma generate_eq:
  "f \<le> l \<Longrightarrow> l \<le> length a \<Longrightarrow>
   generate a f l g = take f a @ replicate (l - f) (g ()) @ drop l a"
  by (rule nth_equalityI) (auto simp: nth_generate nth_append)

lemma fill_eq:
  "f \<le> l \<Longrightarrow> l \<le> length a \<Longrightarrow> fill a f l x = take f a @ replicate (l - f) x @ drop l a"
  by (rule nth_equalityI) (auto simp: nth_fill nth_append)

lemma copy_eq:
  "n \<le> length src \<Longrightarrow> n \<le> length dst \<Longrightarrow> copy src 0 n dst 0 = take n src @ drop n dst"
  by (rule nth_equalityI) (auto simp: nth_copy nth_append)

lemma move_range_eq:
  "p < n \<Longrightarrow> n \<le> length a \<Longrightarrow>
   move_range a (Suc p) n p = take p a @ drop (Suc p) (take n a) @ drop (n - 1) a"
  by (rule nth_equalityI) (auto simp: nth_move_range nth_append)

lemma copy_backward_eq:
  "p \<le> n \<Longrightarrow> n < length a \<Longrightarrow>
   copy_backward a p n (Suc n) = take (Suc p) a @ drop p (take n a) @ drop (Suc n) a"
  by (rule nth_equalityI) (auto simp: nth_copy_backward nth_append)

section \<open>What each operation does to the fields\<close>

lemma elements_eq: "elements v = take (vsize v) (items v)"
  by (simp add: elements_def begin_it_def end_it_def)

lemma sized_fields:
  "items (SimpleVector_sized ini dflt n) = replicate n dflt"
  "vsize (SimpleVector_sized ini dflt n) = n"
  "capacity (SimpleVector_sized ini dflt n) = n"
  by (simp_all add: SimpleVector_sized_def ArrayPtr_new_def begin_it_def end_it_def generate_eq)

lemma NewCapacity_ge: "vector_inv v \<Longrightarrow> vsize v \<le> NewCapacity v n"
  by (auto simp: NewCapacity_def vector_inv_def max_def)

lemma IncCapacity_fields:
  assumes "vector_inv v"
  shows "items (IncCapacity ini dflt v) =
           take (vsize v) (items v) @ replicate (NewCapacity v 1 - vsize v) dflt"
    and "vsize (IncCapacity ini dflt v) = vsize v"
    and "capacity (IncCapacity ini dflt v) = NewCapacity v 1"
proof -
  have "vsize v \<le> length (items v)" "vsize v \<le> NewCapacity v 1"
    using assms NewCapacity_ge [of v 1] by (simp_all add: vector_inv_def)
  then show "items (IncCapacity ini dflt v) =
           take (vsize v) (items v) @ replicate (NewCapacity v 1 - vsize v) dflt"
    by (simp add: IncCapacity_def swap_def sized_fields begin_it_def end_it_def copy_eq)
  show "vsize (IncCapacity ini dflt v) = vsize v"
    by (simp add: IncCapacity_def swap_def sized_fields)
  show "capacity (IncCapacity ini dflt v) = NewCapacity v 1"
    by (simp add: IncCapacity_def swap_def sized_fields)
qed

lemma IncCapacity_inv:
  assumes "vector_inv v"
  shows "vector_inv (IncCapacity ini dflt v)"
  using assms NewCapacity_ge [OF assms, of 1]
  by (simp add: vector_inv_def IncCapacity_fields [OF assms])

lemma IncCapacity_elements:
  assumes "vector_inv v"
  shows "elements (IncCapacity ini dflt v) = elements v"
  using assms by (simp add: elements_eq IncCapacity_fields [OF assms] vector_inv_def)

lemma grown_props:
  fixes ini dflt :: 'a and v :: "'a SimpleVector"
  assumes "vector_inv v"
  defines "g \<equiv> (if IsFull v then IncCapacity ini dflt v else v)"
  shows "vector_inv g"
    and "vsize g = vsize v"
    and "vsize v < capacity g"
    and "elements g = elements v"
    and "capacity g = (if IsFull v then NewCapacity v 1 else capacity v)"
  using assms(1) IncCapacity_inv [OF assms(1), of ini dflt]
    IncCapacity_elements [OF assms(1), of ini dflt]
  by (auto simp: g_def IncCapacity_fields [OF assms(1)] IsFull_def NewCapacity_def vector_inv_def)

lemma read_ref_grown:
  "read_ref freed (IsFull v) (items (if IsFull v then IncCapacity ini dflt v else v)) r =
   read_ref freed (IsFull v) (items v) r"
  by (cases r) (simp_all add: read_ref_def)

lemma PushBack_props:
  assumes "vector_inv v"
  shows "vector_inv (PushBack ini dflt freed v item)"
    and "vsize (PushBack ini dflt freed v item) = Suc (vsize v)"
    and "elements (PushBack ini dflt freed v item) =
           elements v @ [read_ref freed (IsFull v) (items v) item]"
    and "capacity (PushBack ini dflt freed v item) =
           (if IsFull v then NewCapacity v 1 else capacity v)"
proof -
  define g where "g = (if IsFull v then IncCapacity ini dflt v else v)"
  define y where "y = read_ref freed (IsFull v) (items v) item"
  note g = grown_props [OF assms, of ini dflt, folded g_def]
  have pb: "PushBack ini dflt freed v item =
      g\<lparr>items := (items g)[vsize g := y], vsize := Suc (vsize g)\<rparr>"
    using read_ref_grown [of freed v ini dflt item]
    by (simp add: PushBack_def g_def Let_def y_def)
  have len: "vsize v < length (items g)"
    using g(1,3) by (simp add: vector_inv_def)
  show "vector_inv (PushBack ini dflt freed v item)"
    using g(1,2,3) by (simp add: pb vector_inv_def)
  show "vsize (PushBack ini dflt freed v item) = Suc (vsize v)"
    using g(2) by (simp add: pb)
  show "capacity (PushBack ini dflt freed v item) =
      (if IsFull v then NewCapacity v 1 else capacity v)"
    using g(5) by (simp add: pb)
  have "elements g = take (vsize v) (items g)"
    using g(2) by (simp add: elements_eq)
  then have "elements (PushBack ini dflt freed v item) = elements v @ [y]"
    using len g(2,4) by (simp add: pb elements_eq take_Suc_conv_app_nth)
  then show "elements (PushBack ini dflt freed v item) =
      elements v @ [read_ref freed (IsFull v) (items v) item]"
    by (simp add: y_def)
qed

lemma insert_shift:
  "p \<le> n \<Longrightarrow> n < length a \<Longrightarrow>
   take (Suc n) ((copy_backward a p n (Suc n))[p := x]) = take p (take n a) @ x # drop p (take n a)"
proof (rule nth_equalityI)
  assume pn: "p \<le> n" and na: "n < length a"
  show "length (take (Suc n) ((copy_backward a p n (Suc n))[p := x])) =
        length (take p (take n a) @ x # drop p (take n a))"
    using pn na by simp
  fix i
  assume "i < length (take (Suc n) ((copy_backward a p n (Suc n))[p := x]))"
  then have i: "i \<le> n" using na by simp
  consider "i < p" | "i = p" | "p < i" by arith
  then show "take (Suc n) ((copy_backward a p n (Suc n))[p := x]) ! i =
             (take p (take n a) @ x # drop p (take n a)) ! i"
  proof cases
    case 1
    then show ?thesis
      using pn na i by (simp add: nth_copy_backward nth_append)
  next
    case 2
    then show ?thesis
      using pn na by (simp add: nth_append)
  next
    case 3
    then obtain k where k: "i = Suc (p + k)"
      using less_iff_Suc_add by auto
    then show ?thesis
      using pn na i by (simp add: nth_copy_backward nth_append)
  qed
qed

lemma erase_shift:
  "p < n \<Longrightarrow> n \<le> length a \<Longrightarrow>
   take (n - 1) (move_range a (Suc p) n p) = take p (take n a) @ drop (Suc p) (take n a)"
  by (rule nth_equalityI) (auto simp: nth_move_range nth_append)

lemma read_ref_shifted:
  "read_ref freed (IsFull v)
     (copy_backward (items (if IsFull v then IncCapacity ini dflt v else v)) p n m) r =
   read_ref freed (IsFull v) (copy_backward (items v) p n m) r"
  by (cases r) (simp_all add: read_ref_def)

lemma Insert_props:
  assumes "vector_inv v" and "pos \<le> vsize v"
  shows "\<exists>v'. Insert ini dflt freed v pos val = Inr (v', pos) \<and> vector_inv v' \<and>
           vsize v' = Suc (vsize v) \<and>
           elements v' =
             take pos (elements v) @
             read_ref freed (IsFull v) (copy_backward (items v) pos (vsize v) (Suc (vsize v))) val #
             drop pos (elements v) \<and>
           capacity v' = (if IsFull v then NewCapacity v 1 else capacity v)"
proof -
  define g where "g = (if IsFull v then IncCapacity ini dflt v else v)"
  define y where
    "y = read_ref freed (IsFull v) (copy_backward (items v) pos (vsize v) (Suc (vsize v))) val"
  note g = grown_props [OF assms(1), of ini dflt, folded g_def]
  define v' where
    "v' = g\<lparr>vsize := Suc (vsize v),
             items := (copy_backward (items g) pos (vsize v) (Suc (vsize v)))[pos := y]\<rparr>"
  have len: "vsize v < length (items g)"
    using g(1,3) by (simp add: vector_inv_def)
  have ins: "Insert ini dflt freed v pos val = Inr (v', pos)"
    using assms(2) g(2) read_ref_shifted [of freed v ini dflt pos "vsize v" "Suc (vsize v)" val]
    by (simp add: Insert_def begin_it_def end_it_def Let_def g_def [symmetric] v'_def y_def)
  have el: "elements v = take (vsize v) (items g)"
    using g(2,4) by (simp add: elements_eq)
  have "take (Suc (vsize v)) ((copy_backward (items g) pos (vsize v) (Suc (vsize v)))[pos := y])
        = take pos (elements v) @ y # drop pos (elements v)"
    using assms(2) len by (simp add: insert_shift el)
  then have "elements v' = take pos (elements v) @ y # drop pos (elements v)"
    by (simp add: v'_def elements_eq)
  moreover have "vector_inv v'"
    using g(1,3) by (simp add: v'_def vector_inv_def)
  moreover have "vsize v' = Suc (vsize v)"
    by (simp add: v'_def)
  moreover have "capacity v' = (if IsFull v then NewCapacity v 1 else capacity v)"
    using g(5) by (simp add: v'_def)
  ultimately show ?thesis using ins unfolding y_def by blast
qed

lemma Erase_props:
  assumes "vector_inv v" and "pos < vsize v"
  shows "\<exists>v'. Erase v pos = Inr (v', pos) \<and> vector_inv v' \<and>
           vsize v' = vsize v - 1 \<and>
           elements v' = take pos (elements v) @ drop (Suc pos) (elements v) \<and>
           capacity v' = capacity v"
proof -
  define v' where
    "v' = v\<lparr>items := move_range (items v) (Suc pos) (vsize v) pos, vsize := vsize v - 1\<rparr>"
  have len: "vsize v \<le> length (items v)"
    using assms(1) by (simp add: vector_inv_def)
  have er: "Erase v pos = Inr (v', pos)"
    using assms(2) by (simp add: Erase_def begin_it_def end_it_def Let_def v'_def)
  have "elements v' = take pos (elements v) @ drop (Suc pos) (elements v)"
    using assms(2) len erase_shift [of pos "vsize v" "items v"]
    by (simp add: v'_def elements_eq)
  moreover have "vector_inv v'"
    using assms by (auto simp: v'_def vector_inv_def)
  moreover have "vsize v' = vsize v - 1" "capacity v' = capacity v"
    by (simp_all add: v'_def)
  ultimately show ?thesis using er by blast
qed

lemma Resize_grow_fields:
  assumes "vector_inv v" and "capacity v < n"
  shows "items (Resize ini dflt v n) =
           take (vsize v) (items v) @ replicate (NewCapacity v n - vsize v) dflt"
    and "vsize (Resize ini dflt v n) = n"
    and "capacity (Resize ini dflt v n) = NewCapacity v n"
proof -
  have "vsize v \<le> length (items v)" "vsize v \<le> NewCapacity v n"
    using assms(1) NewCapacity_ge [of v n] by (simp_all add: vector_inv_def)
  then show "items (Resize ini dflt v n) =
           take (vsize v) (items v) @ replicate (NewCapacity v n - vsize v) dflt"
    using assms(2)
    by (simp add: Resize_def swap_def sized_fields begin_it_def end_it_def copy_eq Let_def)
  show "vsize (Resize ini dflt v n) = n"
    by (simp add: Resize_def Let_def)
  show "capacity (Resize ini dflt v n) = NewCapacity v n"
    using assms(2) by (simp add: Resize_def swap_def sized_fields Let_def)
qed

lemma Resize_within_fields:
  assumes "vector_inv v" and "n \<le> capacity v"
  shows "items (Resize ini dflt v n) =
           (if vsize v < n then take (vsize v) (items v) @ replicate (n - vsize v) dflt @ drop n (items v)
            else items v)"
    and "vsize (Resize ini dflt v n) = n"
    and "capacity (Resize ini dflt v n) = capacity v"
proof -
  have "n \<le> length (items v)"
    using assms by (simp add: vector_inv_def)
  then show "items (Resize ini dflt v n) =
           (if vsize v < n then take (vsize v) (items v) @ replicate (n - vsize v) dflt @ drop n (items v)
            else items v)"
    using assms(2) by (simp add: Resize_def begin_it_def end_it_def generate_eq Let_def)
  show "vsize (Resize ini dflt v n) = n"
    by (simp add: Resize_def Let_def)
  show "capacity (Resize ini dflt v n) = capacity v"
    using assms(2) by (simp add: Resize_def Let_def)
qed

lemma Resize_props:
  assumes "vector_inv v"
  shows "vector_inv (Resize ini dflt v n)"
    and "vsize (Resize ini dflt v n) = n"
    and "elements (Resize ini dflt v n) = take n (elements v) @ replicate (n - vsize v) dflt"
    and "capacity (Resize ini dflt v n) = (if capacity v < n then NewCapacity v n else capacity v)"
proof -
  have len: "vsize v \<le> capacity v" "capacity v \<le> length (items v)"
    using assms by (simp_all add: vector_inv_def)
  show "vsize (Resize ini dflt v n) = n"
    by (simp add: Resize_def Let_def)
  show "capacity (Resize ini dflt v n) = (if capacity v < n then NewCapacity v n else capacity v)"
    using Resize_grow_fields(3) [OF assms] Resize_within_fields(3) [OF assms] by simp
  show "vector_inv (Resize ini dflt v n)"
  proof (cases "capacity v < n")
    case True
    then show ?thesis
      using len by (auto simp: vector_inv_def Resize_grow_fields [OF assms True] NewCapacity_def)
  next
    case False
    then have "n \<le> capacity v" by simp
    then show ?thesis
      using len by (auto simp: vector_inv_def Resize_within_fields [OF assms])
  qed
  show "elements (Resize ini dflt v n) = take n (elements v) @ replicate (n - vsize v) dflt"
  proof (cases "capacity v < n")
    case True
    then show ?thesis
      using len
      by (auto simp: elements_eq Resize_grow_fields [OF assms True] NewCapacity_def min_absorb2)
  next
    case False
    then have "n \<le> capacity v" by simp
    then show ?thesis
      using len
      by (auto simp: elements_eq Resize_within_fields [OF assms] min_absorb2 min_absorb1)
  qed
qed

lemma Reserve_props:
  assumes "vector_inv v"
  shows "vector_inv (Reserve ini dflt v n)"
    and "vsize (Reserve ini dflt v n) = vsize v"
    and "elements (Reserve ini dflt v n) = elements v"
    and "capacity (Reserve ini dflt v n) = max (capacity v) n"
    and "length (items (Reserve ini dflt v n)) =
           (if capacity v < n then NewCapacity v n else length (items v))"
proof -
  have len: "vsize v \<le> capacity v" "capacity v \<le> length (items v)"
    using assms by (simp_all add: vector_inv_def)
  have nc: "vsize v \<le> NewCapacity v n"
    using NewCapacity_ge [OF assms] .
  show "vsize (Reserve ini dflt v n) = vsize v"
    by (simp add: Reserve_def Let_def)
  show "capacity (Reserve ini dflt v n) = max (capacity v) n"
    by (simp add: Reserve_def Let_def)
  show "length (items (Reserve ini dflt v n)) =
           (if capacity v < n then NewCapacity v n else length (items v))"
    using len nc by (simp add: Reserve_def Let_def Resize_grow_fields [OF assms])
  show "vector_inv (Reserve ini dflt v n)"
    using len nc
    by (auto simp: Reserve_def Let_def vector_inv_def Resize_grow_fields [OF assms] NewCapacity_def)
  show "elements (Reserve ini dflt v n) = elements v"
    using len nc by (simp add: Reserve_def Let_def elements_eq Resize_grow_fields [OF assms])
qed

lemma PopBack_props:
  assumes "vector_inv v"
  shows "vector_inv (PopBack v)"
    and "vsize (PopBack v) = vsize v - 1"
    and "elements (PopBack v) = butlast (elements v)"
    and "capacity (PopBack v) = capacity v"
    and "items (PopBack v) = items v"
  using assms
  by (auto simp: PopBack_def IsEmpty_def vector_inv_def elements_eq butlast_take)

lemma Clear_props:
  assumes "vector_inv v"
  shows "vector_inv (Clear v)"
    and "vsize (Clear v) = 0"
    and "elements (Clear v) = []"
    and "capacity (Clear v) = capacity v"
  using assms by (simp_all add: Clear_def vector_inv_def elements_eq)

section \<open>Comparison\<close>

lemma compare_three_way_equal: "compare_three_way x y = equal \<longleftrightarrow> x = y"
  by (auto simp: compare_three_way_def)

lemma compare_three_way_swap: "compare_three_way x y = greater \<longleftrightarrow> compare_three_way y x = less"
  by (auto simp: compare_three_way_def)

lemma lexicographical_equal_iff:
  "lexicographical_compare_three_way xs ys = equal \<longleftrightarrow> xs = ys"
  by (induction xs ys rule: lexicographical_compare_three_way.induct)
     (auto simp: Let_def compare_three_way_equal)

lemma lexicographical_swap:
  "lexicographical_compare_three_way xs ys = greater \<longleftrightarrow>
   lexicographical_compare_three_way ys xs = less"
proof (induction xs ys rule: lexicographical_compare_three_way.induct)
  case (1 x xs y ys)
  show ?case
  proof (cases "x = y")
    case True
    with 1 show ?thesis
      by (simp add: Let_def compare_three_way_def)
  next
    case False
    then show ?thesis
      by (auto simp: Let_def compare_three_way_def)
  qed
qed simp_all

lemma lexicographical_prefix:
  "lexicographical_compare_three_way xs (xs @ y # ys) = less"
  by (induction xs) (simp_all add: Let_def compare_three_way_def)

lemma elements_eq_iff:
  assumes "vector_inv a" and "vector_inv b"
  shows "elements a = elements b \<longleftrightarrow>
         vsize a = vsize b \<and> (\<forall>i<vsize a. items a ! i = items b ! i)"
proof -
  have "vsize a \<le> length (items a)" "vsize b \<le> length (items b)"
    using assms by (simp_all add: vector_inv_def)
  then show ?thesis
    by (auto simp: elements_eq list_eq_iff_nth_eq min_absorb2)
qed

lemma lexicographical_less_iff:
  "lexicographical_compare_three_way xs ys = less \<longleftrightarrow> (xs, ys) \<in> lexord {(x, y). x < y}"
  by (induction xs ys rule: lexicographical_compare_three_way.induct)
     (auto simp: Let_def compare_three_way_def)

lemma lexicographical_trans:
  assumes "lexicographical_compare_three_way xs ys = less"
    and "lexicographical_compare_three_way ys zs = less"
  shows "lexicographical_compare_three_way xs zs = less"
proof -
  have "trans {(x :: 'a, y). x < y}"
    by (auto simp: trans_def)
  then show ?thesis
    using assms lexord_trans unfolding lexicographical_less_iff by blast
qed

lemma elements_strict_prefix:
  assumes "vector_inv a" and "vector_inv b"
    and "vsize a < vsize b" and "\<forall>i<vsize a. items a ! i = items b ! i"
  shows "\<exists>y ys. elements b = elements a @ y # ys"
proof -
  have len: "vsize a \<le> length (items a)" "vsize b \<le> length (items b)"
    using assms(1,2) by (simp_all add: vector_inv_def)
  have "take (vsize a) (elements b) = elements a"
    using assms(3,4) len by (auto simp: elements_eq list_eq_iff_nth_eq min_absorb2)
  moreover have "vsize a < length (elements b)"
    using assms(3) len by (simp add: elements_eq)
  ultimately have "elements b = elements a @ (elements b ! vsize a) # drop (Suc (vsize a)) (elements b)"
    using id_take_nth_drop [of "vsize a" "elements b"] by simp
  then show ?thesis by blast
qed

section \<open>Constructors, swap and assignment\<close>

lemma elements_nth: "vector_inv v \<Longrightarrow> i < vsize v \<Longrightarrow> elements v ! i = items v ! i"
  by (simp add: elements_eq)

lemma elements_length: "vector_inv v \<Longrightarrow> length (elements v) = vsize v"
  by (simp add: elements_eq vector_inv_def)

lemma default_inv: "vector_inv SimpleVector_default"
  by (simp add: SimpleVector_default_def ArrayPtr_null_def vector_inv_def)

lemma sized_inv: "vector_inv (SimpleVector_sized ini dflt n)"
  by (simp add: vector_inv_def sized_fields)

lemma filled_fields:
  "items (SimpleVector_filled ini n x) = replicate n x"
  "vsize (SimpleVector_filled ini n x) = n"
  "capacity (SimpleVector_filled ini n x) = n"
  by (simp_all add: SimpleVector_filled_def ArrayPtr_new_def begin_it_def end_it_def fill_eq)

lemma init_fields:
  "items (SimpleVector_init ini xs) = xs"
  "vsize (SimpleVector_init ini xs) = length xs"
  "capacity (SimpleVector_init ini xs) = length xs"
  by (simp_all add: SimpleVector_init_def ArrayPtr_new_def begin_it_def copy_eq)

lemma reserved_fields:
  "items (SimpleVector_reserved ini (Reserve_proxy n)) = replicate n ini"
  "vsize (SimpleVector_reserved ini (Reserve_proxy n)) = 0"
  "capacity (SimpleVector_reserved ini (Reserve_proxy n)) = n"
  by (simp_all add: SimpleVector_reserved_def Reserve_proxy_def ArrayPtr_new_def)

lemma copy_fields:
  assumes "vector_inv w"
  shows "items (SimpleVector_copy ini w) = elements w"
    and "vsize (SimpleVector_copy ini w) = vsize w"
    and "capacity (SimpleVector_copy ini w) = vsize w"
proof -
  have "vsize w \<le> length (items w)"
    using assms by (simp add: vector_inv_def)
  then show "items (SimpleVector_copy ini w) = elements w"
    by (simp add: SimpleVector_copy_def ArrayPtr_new_def begin_it_def end_it_def copy_eq
        elements_eq)
  show "vsize (SimpleVector_copy ini w) = vsize w" "capacity (SimpleVector_copy ini w) = vsize w"
    by (simp_all add: SimpleVector_copy_def)
qed

lemma copy_inv: "vector_inv w \<Longrightarrow> vector_inv (SimpleVector_copy ini w)"
  by (simp add: vector_inv_def copy_fields elements_eq)

lemma move_inv:
  "vector_inv w \<Longrightarrow> vector_inv (fst (SimpleVector_move w)) \<and> vector_inv (snd (SimpleVector_move w))"
  by (simp add: SimpleVector_move_def ArrayPtr_null_def vector_inv_def)

lemma swap_inv:
  "vector_inv v \<Longrightarrow> vector_inv w \<Longrightarrow> vector_inv (fst (swap v w)) \<and> vector_inv (snd (swap v w))"
  by (simp add: swap_def vector_inv_def)

lemma list_all_update:
  "list_all P s \<Longrightarrow> P x \<Longrightarrow> list_all P (s[i := x])"
  by (auto simp: list_all_iff dest: set_update_subset_insert [THEN subsetD])

lemma copy_assign_inv:
  assumes "list_all vector_inv s" and "other < length s"
  shows "list_all vector_inv (copy_assign ini s this other)"
proof -
  have o: "vector_inv (s ! other)"
    using assms by (simp add: list_all_length)
  have "vector_inv ((Clear (s ! this))\<lparr>capacity := 0, items := ArrayPtr_null\<rparr>)"
    by (simp add: Clear_def ArrayPtr_null_def vector_inv_def)
  moreover have "vector_inv (fst (swap (s ! this) (SimpleVector_copy ini (s ! other))))"
    using copy_inv [OF o, of ini] by (simp add: swap_def vector_inv_def)
  ultimately show ?thesis
    using assms(1) by (simp add: copy_assign_def Let_def list_all_update)
qed

lemma move_assign_inv:
  assumes "list_all vector_inv s" and "this < length s" and "other < length s"
  shows "list_all vector_inv (move_assign s this other)"
proof -
  have "vector_inv (s ! this)" "vector_inv (s ! other)"
    using assms by (simp_all add: list_all_length)
  then show ?thesis
    using assms(1) swap_inv [of "s ! this" "s ! other"]
    by (simp add: move_assign_def list_all_update)
qed

lemma ctor_elements:
  "elements (SimpleVector_default :: 'a SimpleVector) = []"
  "elements (SimpleVector_sized ini dflt n) = replicate n dflt"
  "elements (SimpleVector_filled ini n x) = replicate n x"
  "elements (SimpleVector_init ini xs) = xs"
  "elements (SimpleVector_reserved ini (Reserve_proxy n)) = []"
  by (simp_all add: elements_eq SimpleVector_default_def sized_fields filled_fields init_fields
      reserved_fields)

lemma copy_elements: "vector_inv w \<Longrightarrow> elements (SimpleVector_copy ini w) = elements w"
  by (simp add: elements_eq [of "SimpleVector_copy ini w"] copy_fields elements_length)

lemma move_elements:
  "elements (fst (SimpleVector_move w)) = elements w" "elements (snd (SimpleVector_move w)) = []"
  by (simp_all add: elements_eq SimpleVector_move_def)

lemma swap_elements:
  "elements (fst (swap v w)) = elements w" "elements (snd (swap v w)) = elements v"
  by (simp_all add: elements_eq swap_def)

lemma copy_assign_elements:
  assumes "list_all vector_inv s" and "this < length s" and "other < length s"
  shows "elements (copy_assign ini s this other ! this) = elements (s ! other)"
proof -
  have o: "vector_inv (s ! other)"
    using assms by (simp add: list_all_length)
  show ?thesis
    using assms(2) copy_elements [OF o, of ini]
    by (simp add: copy_assign_def Let_def IsEmpty_def elements_eq swap_def Clear_def)
qed

lemma move_assign_elements:
  assumes "this < length s" and "other < length s"
  shows "elements (move_assign s this other ! this) = elements (s ! other)"
    and "elements (move_assign s this other ! other) = elements (s ! this)"
  using assms by (auto simp: move_assign_def elements_eq swap_def nth_list_update)

section \<open>The scenario of the specification\<close>

text \<open>
  Starting from the empty vector, three appends give \<open>[1, 2, 3]\<close>; inserting 9 at offset 1
  gives \<open>[1, 9, 2, 3]\<close>; erasing at offset 2 gives \<open>[1, 9, 3]\<close>; \<open>At 10\<close> throws; and
  \<open>Resize 5\<close> gives \<open>[1, 9, 3, 0, 0]\<close>, where 0 is the default value.
\<close>

lemma scenario:
  fixes ini :: nat and freed :: "nat \<Rightarrow> nat"
  defines "v3 \<equiv> PushBack ini 0 freed (PushBack ini 0 freed
            (PushBack ini 0 freed SimpleVector_default (outside 1)) (outside 2)) (outside 3)"
  shows "elements v3 = [1, 2, 3] \<and> GetSize v3 = 3 \<and> GetCapacity v3 = 4 \<and>
         (\<exists>v4 v5. Insert ini 0 freed v3 1 (outside 9) = Inr (v4, 1) \<and>
            elements v4 = [1, 9, 2, 3] \<and>
            Erase v4 2 = Inr (v5, 2) \<and> elements v5 = [1, 9, 3] \<and> GetSize v5 = 3 \<and>
            fst (At v5 10) = Inl out_of_range \<and>
            elements (Resize ini 0 v5 5) = [1, 9, 3, 0, 0] \<and> GetSize (Resize ini 0 v5 5) = 5)"
proof -
  have v3: "v3 = \<lparr>items = [1, 2, 3, 0], vsize = 3, capacity = 4\<rparr>"
    by (simp add: v3_def PushBack_def read_ref_def IsFull_def IncCapacity_def NewCapacity_def
        SimpleVector_default_def SimpleVector_sized_def ArrayPtr_null_def ArrayPtr_new_def
        swap_def begin_it_def end_it_def Let_def generate.simps copy.simps numeral_eq_Suc)
  have i: "Insert ini 0 freed v3 1 (outside 9) =
      Inr (\<lparr>items = [1, 9, 2, 3], vsize = 4, capacity = 4\<rparr>, 1)"
    by (simp add: v3 Insert_def read_ref_def IsFull_def begin_it_def end_it_def Let_def
        copy_backward.simps numeral_eq_Suc)
  have e: "Erase \<lparr>items = [1, 9, 2, 3 :: nat], vsize = 4, capacity = 4\<rparr> 2 =
      Inr (\<lparr>items = [1, 9, 3, 3], vsize = 3, capacity = 4\<rparr>, 2)"
    by (simp add: Erase_def begin_it_def end_it_def Let_def move_range.simps numeral_eq_Suc)
  have r: "Resize ini 0 \<lparr>items = [1, 9, 3, 3 :: nat], vsize = 3, capacity = 4\<rparr> 5 =
      \<lparr>items = [1, 9, 3, 0, 0, 0, 0, 0], vsize = 5, capacity = 8\<rparr>"
    by (simp add: Resize_def NewCapacity_def SimpleVector_sized_def ArrayPtr_new_def swap_def
        begin_it_def end_it_def Let_def generate.simps copy.simps numeral_eq_Suc)
  let ?v4 = "\<lparr>items = [1, 9, 2, 3 :: nat], vsize = 4, capacity = 4\<rparr>"
  let ?v5 = "\<lparr>items = [1, 9, 3, 3 :: nat], vsize = 3, capacity = 4\<rparr>"
  have a: "elements v3 = [1, 2, 3]" "GetSize v3 = 3" "GetCapacity v3 = 4"
    by (simp_all add: v3 elements_eq GetSize_def GetCapacity_def numeral_eq_Suc)
  have el: "elements ?v4 = [1, 9, 2, 3]" "elements ?v5 = [1, 9, 3]" "GetSize ?v5 = 3"
    by (simp_all add: elements_eq GetSize_def numeral_eq_Suc)
  have at: "fst (At ?v5 10) = Inl out_of_range"
    by (simp add: At_def)
  have rs: "elements (Resize ini 0 ?v5 5) = [1, 9, 3, 0, 0]" "GetSize (Resize ini 0 ?v5 5) = 5"
    unfolding r by (simp_all add: elements_eq GetSize_def numeral_eq_Suc)
  show ?thesis
    using a i e el at rs by blast
qed

section \<open>The invariant\<close>

text \<open>
  Every constructor establishes, and every operation preserves, \<open>vector_inv\<close>, whatever
  the argument of \<open>PushBack\<close> and \<open>Insert\<close> refers to; and the elements in \<open>[0, size)\<close> after
  each operation are as stated. For \<open>PushBack\<close> and \<open>Insert\<close> the new element is what
  \<open>read_ref\<close> gives at the point of the assignment: the value of an outside object, the
  present content of the slot referred to when nothing was reallocated, and the content of
  the deleted array when the vector was full.
\<close>

lemma vector_inv_preserved:
  assumes "vector_inv v" and "vector_inv w"
    and "list_all vector_inv s" and "this < length s" and "other < length s"
  shows "(vector_inv (SimpleVector_default :: 'a SimpleVector) \<and>
            elements (SimpleVector_default :: 'a SimpleVector) = []) \<and>
         (vector_inv (SimpleVector_sized ini dflt n) \<and>
            elements (SimpleVector_sized ini dflt n) = replicate n dflt) \<and>
         (vector_inv (SimpleVector_filled ini n x) \<and>
            elements (SimpleVector_filled ini n x) = replicate n x) \<and>
         (vector_inv (SimpleVector_init ini xs) \<and> elements (SimpleVector_init ini xs) = xs) \<and>
         (vector_inv (SimpleVector_reserved ini (Reserve_proxy n)) \<and>
            elements (SimpleVector_reserved ini (Reserve_proxy n)) = []) \<and>
         (vector_inv (SimpleVector_copy ini w) \<and>
            elements (SimpleVector_copy ini w) = elements w) \<and>
         (vector_inv (fst (SimpleVector_move w)) \<and>
            elements (fst (SimpleVector_move w)) = elements w \<and>
            vector_inv (snd (SimpleVector_move w)) \<and>
            elements (snd (SimpleVector_move w)) = []) \<and>
         (vector_inv (PushBack ini dflt freed v r) \<and>
            elements (PushBack ini dflt freed v r) =
              elements v @ [read_ref freed (IsFull v) (items v) r]) \<and>
         (case Insert ini dflt freed v pos r of
            Inl e \<Rightarrow> GetSize v < pos
          | Inr (v', it) \<Rightarrow>
              vector_inv v' \<and>
              elements v' =
                take pos (elements v) @
                read_ref freed (IsFull v)
                  (copy_backward (items v) pos (vsize v) (Suc (vsize v))) r #
                drop pos (elements v)) \<and>
         (case Erase v pos of
            Inl e \<Rightarrow> GetSize v \<le> pos
          | Inr (v', it) \<Rightarrow>
              vector_inv v' \<and> elements v' = take pos (elements v) @ drop (Suc pos) (elements v)) \<and>
         (vector_inv (PopBack v) \<and> elements (PopBack v) = butlast (elements v)) \<and>
         (vector_inv (Clear v) \<and> elements (Clear v) = []) \<and>
         (vector_inv (Resize ini dflt v n) \<and>
            elements (Resize ini dflt v n) =
              take n (elements v) @ replicate (n - GetSize v) dflt) \<and>
         (vector_inv (Reserve ini dflt v n) \<and> elements (Reserve ini dflt v n) = elements v) \<and>
         (vector_inv (fst (swap v w)) \<and> elements (fst (swap v w)) = elements w \<and>
            vector_inv (snd (swap v w)) \<and> elements (snd (swap v w)) = elements v) \<and>
         (list_all vector_inv (copy_assign ini s this other) \<and>
            elements (copy_assign ini s this other ! this) = elements (s ! other)) \<and>
         (list_all vector_inv (move_assign s this other) \<and>
            elements (move_assign s this other ! this) = elements (s ! other) \<and>
            elements (move_assign s this other ! other) = elements (s ! this))"
proof -
  have ctor: "vector_inv (SimpleVector_default :: 'a SimpleVector) \<and>
        elements (SimpleVector_default :: 'a SimpleVector) = []"
    "vector_inv (SimpleVector_sized ini dflt n) \<and>
        elements (SimpleVector_sized ini dflt n) = replicate n dflt"
    "vector_inv (SimpleVector_filled ini n x) \<and>
        elements (SimpleVector_filled ini n x) = replicate n x"
    "vector_inv (SimpleVector_init ini xs) \<and> elements (SimpleVector_init ini xs) = xs"
    "vector_inv (SimpleVector_reserved ini (Reserve_proxy n)) \<and>
        elements (SimpleVector_reserved ini (Reserve_proxy n)) = []"
    using default_inv sized_inv [of ini dflt n]
    by (simp_all add: ctor_elements) (simp_all add: vector_inv_def filled_fields init_fields
        reserved_fields)
  have cp: "vector_inv (SimpleVector_copy ini w) \<and> elements (SimpleVector_copy ini w) = elements w"
    using copy_inv [OF assms(2)] copy_elements [OF assms(2)] by simp
  have mv: "vector_inv (fst (SimpleVector_move w)) \<and>
        elements (fst (SimpleVector_move w)) = elements w \<and>
        vector_inv (snd (SimpleVector_move w)) \<and> elements (snd (SimpleVector_move w)) = []"
    using move_inv [OF assms(2)] by (simp add: move_elements)
  have pb: "vector_inv (PushBack ini dflt freed v r) \<and>
        elements (PushBack ini dflt freed v r) =
          elements v @ [read_ref freed (IsFull v) (items v) r]"
    using PushBack_props(1,3) [OF assms(1)] by simp
  have ins: "case Insert ini dflt freed v pos r of
      Inl e \<Rightarrow> GetSize v < pos
    | Inr (v', it) \<Rightarrow>
        vector_inv v' \<and>
        elements v' =
          take pos (elements v) @
          read_ref freed (IsFull v) (copy_backward (items v) pos (vsize v) (Suc (vsize v))) r #
          drop pos (elements v)"
  proof (cases "pos \<le> vsize v")
    case True
    then show ?thesis
      using Insert_props [OF assms(1), of pos ini dflt freed r] by auto
  next
    case False
    then show ?thesis
      by (simp add: Insert_def begin_it_def end_it_def GetSize_def)
  qed
  have er: "case Erase v pos of
      Inl e \<Rightarrow> GetSize v \<le> pos
    | Inr (v', it) \<Rightarrow>
        vector_inv v' \<and> elements v' = take pos (elements v) @ drop (Suc pos) (elements v)"
  proof (cases "pos < vsize v")
    case True
    then show ?thesis
      using Erase_props [OF assms(1), of pos] by auto
  next
    case False
    then show ?thesis
      by (simp add: Erase_def begin_it_def end_it_def GetSize_def)
  qed
  have pop: "vector_inv (PopBack v) \<and> elements (PopBack v) = butlast (elements v)"
    using PopBack_props(1,3) [OF assms(1)] by simp
  have clr: "vector_inv (Clear v) \<and> elements (Clear v) = []"
    using Clear_props(1,3) [OF assms(1)] by simp
  have rsz: "vector_inv (Resize ini dflt v n) \<and>
        elements (Resize ini dflt v n) = take n (elements v) @ replicate (n - GetSize v) dflt"
    using Resize_props(1,3) [OF assms(1)] by (simp add: GetSize_def)
  have rsv: "vector_inv (Reserve ini dflt v n) \<and> elements (Reserve ini dflt v n) = elements v"
    using Reserve_props(1,3) [OF assms(1)] by simp
  have sw: "vector_inv (fst (swap v w)) \<and> elements (fst (swap v w)) = elements w \<and>
        vector_inv (snd (swap v w)) \<and> elements (snd (swap v w)) = elements v"
    using swap_inv [OF assms(1,2)] by (simp add: swap_elements)
  have ca: "list_all vector_inv (copy_assign ini s this other) \<and>
        elements (copy_assign ini s this other ! this) = elements (s ! other)"
    using copy_assign_inv [OF assms(3,5)] copy_assign_elements [OF assms(3,4,5)] by simp
  have ma: "list_all vector_inv (move_assign s this other) \<and>
        elements (move_assign s this other ! this) = elements (s ! other) \<and>
        elements (move_assign s this other ! other) = elements (s ! this)"
    using move_assign_inv [OF assms(3,4,5)] move_assign_elements [OF assms(4,5)] by simp
  show ?thesis
    by (intro conjI ctor cp mv pb ins er pop clr rsz rsv sw ca ma)
qed

section \<open>The claims of the specification\<close>

subsection \<open>Claim C1\<close>

text \<open>
  C1. For two vectors \<open>a\<close> and \<open>b\<close>, \<^verbatim>\<open>a == b\<close> holds iff they have the same size and
  the elements at every index below the size are equal, and \<^verbatim>\<open>a == b\<close> holds iff the
  three-way comparison \<^verbatim>\<open>a <=> b\<close> is \<^verbatim>\<open>equal\<close>.
\<close>

theorem C1_equality:
  assumes "vector_inv a" and "vector_inv b"
  shows "(op_eq a b \<longleftrightarrow>
            GetSize a = GetSize b \<and> (\<forall>i<GetSize a. items a ! i = items b ! i)) \<and>
         (op_eq a b \<longleftrightarrow> cmp3 a b = equal)"
  using elements_eq_iff [OF assms]
  by (simp add: op_eq_def cmp3_def lexicographical_equal_iff GetSize_def)

theorem C1_equality_witness:
  "vector_inv \<lparr>items = [1, 2, 3, 0 :: nat], vsize = 3, capacity = 4\<rparr> \<and>
   vector_inv \<lparr>items = [1, 2, 3 :: nat], vsize = 3, capacity = 3\<rparr> \<and>
   op_eq \<lparr>items = [1, 2, 3, 0 :: nat], vsize = 3, capacity = 4\<rparr>
         \<lparr>items = [1, 2, 3 :: nat], vsize = 3, capacity = 3\<rparr> \<and>
   cmp3 \<lparr>items = [1, 2, 3, 0 :: nat], vsize = 3, capacity = 4\<rparr>
        \<lparr>items = [1, 2, 3 :: nat], vsize = 3, capacity = 3\<rparr> = equal"
proof -
  let ?a = "\<lparr>items = [1, 2, 3, 0 :: nat], vsize = 3, capacity = 4\<rparr>"
  let ?b = "\<lparr>items = [1, 2, 3 :: nat], vsize = 3, capacity = 3\<rparr>"
  have a: "vector_inv ?a" and b: "vector_inv ?b"
    by (simp_all add: vector_inv_def)
  have "\<forall>i<GetSize ?a. items ?a ! i = items ?b ! i"
    by (simp add: GetSize_def numeral_3_eq_3 less_Suc_eq)
  moreover have "GetSize ?a = GetSize ?b"
    by (simp add: GetSize_def)
  ultimately have "op_eq ?a ?b" and "cmp3 ?a ?b = equal"
    using C1_equality [OF a b] by blast+
  then show ?thesis using a b by blast
qed

subsection \<open>Claim C2\<close>

text \<open>
  C2. For two vectors \<open>a\<close> and \<open>b\<close>, exactly one of \<^verbatim>\<open>a < b\<close>, \<^verbatim>\<open>a == b\<close>, \<^verbatim>\<open>a > b\<close> holds,
  where \<^verbatim>\<open>a > b\<close> is \<^verbatim>\<open>b < a\<close> and \<^verbatim>\<open><\<close> is transitive; and if \<open>a\<close> is a strict prefix of
  \<open>b\<close> (it is shorter, and its elements are the first elements of \<open>b\<close>), then \<^verbatim>\<open>a < b\<close>.
\<close>

theorem C2_total_order:
  assumes "vector_inv a" and "vector_inv b"
  shows "((op_lt a b \<and> \<not> op_eq a b \<and> \<not> op_gt a b) \<or>
          (op_eq a b \<and> \<not> op_lt a b \<and> \<not> op_gt a b) \<or>
          (op_gt a b \<and> \<not> op_lt a b \<and> \<not> op_eq a b)) \<and>
         (op_gt a b \<longleftrightarrow> op_lt b a) \<and>
         (op_lt a b \<and> op_lt b c \<longrightarrow> op_lt a c) \<and>
         (GetSize a < GetSize b \<and> (\<forall>i<GetSize a. items a ! i = items b ! i) \<longrightarrow> op_lt a b)"
proof (intro conjI impI)
  show "(op_lt a b \<and> \<not> op_eq a b \<and> \<not> op_gt a b) \<or>
        (op_eq a b \<and> \<not> op_lt a b \<and> \<not> op_gt a b) \<or>
        (op_gt a b \<and> \<not> op_lt a b \<and> \<not> op_eq a b)"
    by (cases "cmp3 a b") (simp_all add: op_lt_def op_eq_def op_gt_def)
  show "op_gt a b \<longleftrightarrow> op_lt b a"
    by (simp add: op_gt_def op_lt_def cmp3_def lexicographical_swap)
next
  assume "op_lt a b \<and> op_lt b c"
  then show "op_lt a c"
    using lexicographical_trans by (auto simp: op_lt_def cmp3_def)
next
  assume "GetSize a < GetSize b \<and> (\<forall>i<GetSize a. items a ! i = items b ! i)"
  then obtain y ys where "elements b = elements a @ y # ys"
    using elements_strict_prefix [OF assms] unfolding GetSize_def by blast
  then show "op_lt a b"
    by (simp add: op_lt_def cmp3_def lexicographical_prefix)
qed

theorem C2_total_order_witness:
  "vector_inv \<lparr>items = [1, 2, 0 :: nat], vsize = 2, capacity = 3\<rparr> \<and>
   vector_inv \<lparr>items = [1, 2, 3 :: nat], vsize = 3, capacity = 3\<rparr> \<and>
   GetSize \<lparr>items = [1, 2, 0 :: nat], vsize = 2, capacity = 3\<rparr>
     < GetSize \<lparr>items = [1, 2, 3 :: nat], vsize = 3, capacity = 3\<rparr> \<and>
   op_lt \<lparr>items = [1, 2, 0 :: nat], vsize = 2, capacity = 3\<rparr>
         \<lparr>items = [1, 2, 3 :: nat], vsize = 3, capacity = 3\<rparr> \<and>
   \<not> op_eq \<lparr>items = [1, 2, 0 :: nat], vsize = 2, capacity = 3\<rparr>
           \<lparr>items = [1, 2, 3 :: nat], vsize = 3, capacity = 3\<rparr> \<and>
   \<not> op_gt \<lparr>items = [1, 2, 0 :: nat], vsize = 2, capacity = 3\<rparr>
           \<lparr>items = [1, 2, 3 :: nat], vsize = 3, capacity = 3\<rparr>"
proof -
  let ?a = "\<lparr>items = [1, 2, 0 :: nat], vsize = 2, capacity = 3\<rparr>"
  let ?b = "\<lparr>items = [1, 2, 3 :: nat], vsize = 3, capacity = 3\<rparr>"
  have a: "vector_inv ?a" and b: "vector_inv ?b"
    by (simp_all add: vector_inv_def)
  have sz: "GetSize ?a < GetSize ?b"
    by (simp add: GetSize_def)
  have "\<forall>i<GetSize ?a. items ?a ! i = items ?b ! i"
    by (simp add: GetSize_def numeral_2_eq_2 less_Suc_eq)
  with sz have lt: "op_lt ?a ?b"
    using C2_total_order [OF a b] by blast
  then have "\<not> op_eq ?a ?b" and "\<not> op_gt ?a ?b"
    using C2_total_order [OF a b] by blast+
  with lt sz a b show ?thesis by blast
qed

subsection \<open>Claim C3\<close>



subsection \<open>Claim C4\<close>

text \<open>
  C4. After \<open>Resize\<close> to \<open>n\<close> the size is \<open>n\<close>; every slot from the old size up to \<open>n\<close> holds
  the default value \<^verbatim>\<open>Type{}\<close>; and if \<open>n\<close> is at most the old size, the first \<open>n\<close> elements are
  the original ones.
\<close>

theorem C4_resize:
  assumes "vector_inv v"
  shows "GetSize (Resize ini dflt v n) = n \<and>
         (\<forall>i. GetSize v \<le> i \<and> i < n \<longrightarrow> items (Resize ini dflt v n) ! i = dflt) \<and>
         (n \<le> GetSize v \<longrightarrow> (\<forall>i<n. items (Resize ini dflt v n) ! i = items v ! i))"
proof (intro conjI allI impI)
  note r = Resize_props [OF assms, of ini dflt n]
  show "GetSize (Resize ini dflt v n) = n"
    using r(2) by (simp add: GetSize_def)
  have nth: "items (Resize ini dflt v n) ! i = (take n (elements v) @ replicate (n - vsize v) dflt) ! i"
    if "i < n" for i
    using elements_nth [OF r(1), of i] that r(2,3) by simp
  show "items (Resize ini dflt v n) ! i = dflt" if "GetSize v \<le> i \<and> i < n" for i
  proof -
    have "i - vsize v < n - vsize v"
      using that by (simp add: GetSize_def less_diff_conv2)
    then show ?thesis
      using that nth [of i] elements_length [OF assms]
      by (simp add: GetSize_def nth_append min_absorb2)
  qed
  show "items (Resize ini dflt v n) ! i = items v ! i" if "n \<le> GetSize v" and "i < n" for i
    using that nth [of i] elements_length [OF assms] elements_nth [OF assms, of i]
    by (simp add: GetSize_def nth_append min_absorb1)
qed

theorem C4_resize_witness:
  "vector_inv \<lparr>items = [1, 2, 3, 4 :: nat], vsize = 2, capacity = 4\<rparr> \<and>
   Resize 7 0 \<lparr>items = [1, 2, 3, 4 :: nat], vsize = 2, capacity = 4\<rparr> 3 =
     \<lparr>items = [1, 2, 0, 4], vsize = 3, capacity = 4\<rparr> \<and>
   Resize 7 0 \<lparr>items = [1, 2, 3, 4 :: nat], vsize = 2, capacity = 4\<rparr> 5 =
     \<lparr>items = [1, 2, 0, 0, 0, 0, 0, 0], vsize = 5, capacity = 8\<rparr> \<and>
   Resize 7 0 \<lparr>items = [1, 2, 3, 4 :: nat], vsize = 2, capacity = 4\<rparr> 1 =
     \<lparr>items = [1, 2, 3, 4], vsize = 1, capacity = 4\<rparr> \<and>
   GetSize (Resize 7 0 \<lparr>items = [1, 2, 3, 4 :: nat], vsize = 2, capacity = 4\<rparr> 3) = 3 \<and>
   items (Resize 7 0 \<lparr>items = [1, 2, 3, 4 :: nat], vsize = 2, capacity = 4\<rparr> 3) ! 2 = 0 \<and>
   items (Resize 7 0 \<lparr>items = [1, 2, 3, 4 :: nat], vsize = 2, capacity = 4\<rparr> 5) ! 4 = 0 \<and>
   items (Resize 7 0 \<lparr>items = [1, 2, 3, 4 :: nat], vsize = 2, capacity = 4\<rparr> 1) ! 0 = 1"
proof -
  let ?v = "\<lparr>items = [1, 2, 3, 4 :: nat], vsize = 2, capacity = 4\<rparr>"
  have v: "vector_inv ?v"
    by (simp add: vector_inv_def)
  have sz: "GetSize ?v = 2"
    by (simp add: GetSize_def)
  have r3: "Resize 7 0 ?v 3 = \<lparr>items = [1, 2, 0, 4], vsize = 3, capacity = 4\<rparr>"
    by (simp add: Resize_def begin_it_def end_it_def Let_def generate.simps numeral_eq_Suc)
  have r5: "Resize 7 0 ?v 5 = \<lparr>items = [1, 2, 0, 0, 0, 0, 0, 0], vsize = 5, capacity = 8\<rparr>"
    by (simp add: Resize_def NewCapacity_def SimpleVector_sized_def ArrayPtr_new_def swap_def
        begin_it_def end_it_def Let_def generate.simps copy.simps numeral_eq_Suc)
  have r1: "Resize 7 0 ?v 1 = \<lparr>items = [1, 2, 3, 4], vsize = 1, capacity = 4\<rparr>"
    by (simp add: Resize_def begin_it_def end_it_def Let_def)
  have "GetSize (Resize 7 0 ?v 3) = 3" and "items (Resize 7 0 ?v 3) ! 2 = 0"
    using C4_resize [OF v, of 7 0 3] sz by simp_all
  moreover have "items (Resize 7 0 ?v 5) ! 4 = 0"
    using C4_resize [OF v, of 7 0 5] sz by simp
  moreover have "items (Resize 7 0 ?v 1) ! 0 = 1"
    using C4_resize [OF v, of 7 0 1] sz by simp
  ultimately show ?thesis using v r3 r5 r1 by blast
qed

subsection \<open>Claim C5\<close>

text \<open>
  C5. \<open>Reserve\<close> with \<open>n\<close> at most the capacity returns the vector unchanged. \<open>Reserve\<close> with
  \<open>n\<close> above the capacity makes the capacity exactly \<open>n\<close> and keeps the size and every live
  element.
\<close>

theorem C5_reserve:
  assumes "vector_inv v"
  shows "(n \<le> GetCapacity v \<longrightarrow> Reserve ini dflt v n = v) \<and>
         (GetCapacity v < n \<longrightarrow>
            GetCapacity (Reserve ini dflt v n) = n \<and>
            GetSize (Reserve ini dflt v n) = GetSize v \<and>
            elements (Reserve ini dflt v n) = elements v \<and>
            (\<forall>i<GetSize v. items (Reserve ini dflt v n) ! i = items v ! i))"
proof (intro conjI impI)
  note r = Reserve_props [OF assms, of ini dflt n]
  show "Reserve ini dflt v n = v" if "n \<le> GetCapacity v"
    using that by (simp add: Reserve_def GetCapacity_def)
  show "GetCapacity (Reserve ini dflt v n) = n" if "GetCapacity v < n"
    using that r(4) by (simp add: GetCapacity_def)
  show "GetSize (Reserve ini dflt v n) = GetSize v"
    using r(2) by (simp add: GetSize_def)
  show "elements (Reserve ini dflt v n) = elements v"
    using r(3) .
  show "\<forall>i<GetSize v. items (Reserve ini dflt v n) ! i = items v ! i"
    using r(2,3) elements_eq_iff [OF r(1) assms] by (simp add: GetSize_def)
qed

theorem C5_reserve_witness:
  "vector_inv \<lparr>items = [1, 2, 3, 4 :: nat], vsize = 2, capacity = 4\<rparr> \<and>
   3 \<le> GetCapacity \<lparr>items = [1, 2, 3, 4 :: nat], vsize = 2, capacity = 4\<rparr> \<and>
   GetCapacity \<lparr>items = [1, 2, 3, 4 :: nat], vsize = 2, capacity = 4\<rparr> < 5 \<and>
   Reserve 7 0 \<lparr>items = [1, 2, 3, 4 :: nat], vsize = 2, capacity = 4\<rparr> 3 =
     \<lparr>items = [1, 2, 3, 4], vsize = 2, capacity = 4\<rparr> \<and>
   Reserve 7 0 \<lparr>items = [1, 2, 3, 4 :: nat], vsize = 2, capacity = 4\<rparr> 5 =
     \<lparr>items = [1, 2, 0, 0, 0, 0, 0, 0], vsize = 2, capacity = 5\<rparr> \<and>
   GetCapacity (Reserve 7 0 \<lparr>items = [1, 2, 3, 4 :: nat], vsize = 2, capacity = 4\<rparr> 5) = 5 \<and>
   elements (Reserve 7 0 \<lparr>items = [1, 2, 3, 4 :: nat], vsize = 2, capacity = 4\<rparr> 5) = [1, 2]"
proof -
  let ?v = "\<lparr>items = [1, 2, 3, 4 :: nat], vsize = 2, capacity = 4\<rparr>"
  have v: "vector_inv ?v"
    by (simp add: vector_inv_def)
  have c3: "3 \<le> GetCapacity ?v" and c5: "GetCapacity ?v < 5"
    by (simp_all add: GetCapacity_def)
  have el: "elements ?v = [1, 2]"
    by (simp add: elements_eq numeral_eq_Suc)
  have r5: "Reserve 7 0 ?v 5 = \<lparr>items = [1, 2, 0, 0, 0, 0, 0, 0], vsize = 2, capacity = 5\<rparr>"
    by (simp add: Reserve_def Resize_def NewCapacity_def SimpleVector_sized_def ArrayPtr_new_def
        swap_def begin_it_def end_it_def Let_def generate.simps copy.simps numeral_eq_Suc)
  have "Reserve 7 0 ?v 3 = ?v"
    using C5_reserve [OF v, of 3 7 0] c3 by blast
  moreover have "GetCapacity (Reserve 7 0 ?v 5) = 5" and "elements (Reserve 7 0 ?v 5) = [1, 2]"
    using C5_reserve [OF v, of 5 7 0] c5 el by simp_all
  ultimately show ?thesis using v c3 c5 r5 by blast
qed

subsection \<open>Claim C6\<close>

text \<open>
  C6 (as amended). When a growth reallocation occurs: \<open>PushBack\<close> and \<open>Insert\<close> on a full
  vector yield the capacity \<open>max (old capacity * 2) 1\<close>, whatever their argument refers to; \<open>Resize\<close> to an \<open>n\<close> above the capacity
  yields the capacity \<open>max (old capacity * 2) n\<close>; \<open>Reserve\<close> of an \<open>n\<close> above the capacity
  allocates a buffer of \<open>max (old capacity * 2) n\<close> slots (through \<open>Resize\<close>) and then sets the
  capacity to exactly \<open>n\<close>.
\<close>

theorem C6_growth_capacity:
  assumes "vector_inv v"
  shows "(IsFull v \<longrightarrow>
            GetCapacity (PushBack ini dflt freed v x) = max (GetCapacity v * 2) 1) \<and>
         (IsFull v \<and> pos \<le> GetSize v \<longrightarrow>
            (\<exists>v' it. Insert ini dflt freed v pos x = Inr (v', it) \<and>
               GetCapacity v' = max (GetCapacity v * 2) 1)) \<and>
         (GetCapacity v < n \<longrightarrow>
            GetCapacity (Resize ini dflt v n) = max (GetCapacity v * 2) n) \<and>
         (GetCapacity v < n \<longrightarrow>
            GetCapacity (Reserve ini dflt v n) = n \<and>
            length (items (Reserve ini dflt v n)) = max (GetCapacity v * 2) n)"
proof (intro conjI impI)
  show "GetCapacity (PushBack ini dflt freed v x) = max (GetCapacity v * 2) 1" if "IsFull v"
    using that PushBack_props(4) [OF assms, of ini dflt freed x]
    by (simp add: GetCapacity_def NewCapacity_def)
  show "\<exists>v' it. Insert ini dflt freed v pos x = Inr (v', it) \<and>
          GetCapacity v' = max (GetCapacity v * 2) 1"
    if "IsFull v \<and> pos \<le> GetSize v"
  proof -
    have "pos \<le> vsize v"
      using that by (simp add: GetSize_def)
    then obtain v' where "Insert ini dflt freed v pos x = Inr (v', pos)"
      "capacity v' = (if IsFull v then NewCapacity v 1 else capacity v)"
      using Insert_props [OF assms, of pos ini dflt freed x] by blast
    then show ?thesis
      using that by (simp add: GetCapacity_def NewCapacity_def)
  qed
  show "GetCapacity (Resize ini dflt v n) = max (GetCapacity v * 2) n" if "GetCapacity v < n"
    using that Resize_props(4) [OF assms, of ini dflt n]
    by (simp add: GetCapacity_def NewCapacity_def)
  show "GetCapacity (Reserve ini dflt v n) = n" if "GetCapacity v < n"
    using that Reserve_props(4) [OF assms, of ini dflt n] by (simp add: GetCapacity_def)
  show "length (items (Reserve ini dflt v n)) = max (GetCapacity v * 2) n" if "GetCapacity v < n"
    using that Reserve_props(5) [OF assms, of ini dflt n]
    by (simp add: GetCapacity_def NewCapacity_def)
qed

theorem C6_growth_capacity_witness:
  "vector_inv \<lparr>items = [1, 2, 3, 4 :: nat], vsize = 4, capacity = 4\<rparr> \<and>
   IsFull \<lparr>items = [1, 2, 3, 4 :: nat], vsize = 4, capacity = 4\<rparr> \<and>
   1 \<le> GetSize \<lparr>items = [1, 2, 3, 4 :: nat], vsize = 4, capacity = 4\<rparr> \<and>
   GetCapacity \<lparr>items = [1, 2, 3, 4 :: nat], vsize = 4, capacity = 4\<rparr> < 5 \<and>
   PushBack 7 0 (\<lambda>k. 99) \<lparr>items = [1, 2, 3, 4 :: nat], vsize = 4, capacity = 4\<rparr> (outside 9) =
     \<lparr>items = [1, 2, 3, 4, 9, 0, 0, 0], vsize = 5, capacity = 8\<rparr> \<and>
   Insert 7 0 (\<lambda>k. 99) \<lparr>items = [1, 2, 3, 4 :: nat], vsize = 4, capacity = 4\<rparr> 1 (outside 9) =
     Inr (\<lparr>items = [1, 9, 2, 3, 4, 0, 0, 0], vsize = 5, capacity = 8\<rparr>, 1) \<and>
   GetCapacity (PushBack 7 0 (\<lambda>k. 99) \<lparr>items = [1, 2, 3, 4 :: nat], vsize = 4, capacity = 4\<rparr>
     (outside 9)) = 8 \<and>
   GetCapacity (PushBack 7 0 (\<lambda>k. 99) \<lparr>items = [1, 2, 3, 4 :: nat], vsize = 4, capacity = 4\<rparr>
     (slot 0)) = 8 \<and>
   GetCapacity (Resize 7 0 \<lparr>items = [1, 2, 3, 4 :: nat], vsize = 4, capacity = 4\<rparr> 5) = 8 \<and>
   GetCapacity (Reserve 7 0 \<lparr>items = [1, 2, 3, 4 :: nat], vsize = 4, capacity = 4\<rparr> 5) = 5 \<and>
   length (items (Reserve 7 0 \<lparr>items = [1, 2, 3, 4 :: nat], vsize = 4, capacity = 4\<rparr> 5)) = 8"
proof -
  let ?v = "\<lparr>items = [1, 2, 3, 4 :: nat], vsize = 4, capacity = 4\<rparr>"
  have v: "vector_inv ?v" and f: "IsFull ?v" and p: "1 \<le> GetSize ?v" and c: "GetCapacity ?v < 5"
    by (simp_all add: vector_inv_def IsFull_def GetSize_def GetCapacity_def)
  have c4: "GetCapacity ?v = 4"
    by (simp add: GetCapacity_def)
  have pb: "PushBack 7 0 (\<lambda>k. 99) ?v (outside 9) =
      \<lparr>items = [1, 2, 3, 4, 9, 0, 0, 0], vsize = 5, capacity = 8\<rparr>"
    by (simp add: PushBack_def read_ref_def IsFull_def IncCapacity_def NewCapacity_def SimpleVector_sized_def
        ArrayPtr_new_def swap_def begin_it_def end_it_def Let_def
        generate.simps copy.simps numeral_eq_Suc)
  have ins: "Insert 7 0 (\<lambda>k. 99) ?v 1 (outside 9) =
      Inr (\<lparr>items = [1, 9, 2, 3, 4, 0, 0, 0], vsize = 5, capacity = 8\<rparr>, 1)"
    by (simp add: Insert_def read_ref_def IsFull_def IncCapacity_def NewCapacity_def SimpleVector_sized_def
        ArrayPtr_new_def swap_def begin_it_def end_it_def Let_def
        generate.simps copy.simps copy_backward.simps numeral_eq_Suc)
  note t = C6_growth_capacity [OF v, of 7 0 "\<lambda>k. 99" "outside 9" 1 5]
  have "GetCapacity (PushBack 7 0 (\<lambda>k. 99) ?v (outside 9)) = 8"
    using t f c4 by simp
  moreover have "GetCapacity (PushBack 7 0 (\<lambda>k. 99) ?v (slot 0)) = 8"
    using C6_growth_capacity [OF v, of 7 0 "\<lambda>k. 99" "slot 0" 1 5] f c4 by simp
  moreover have "GetCapacity (Resize 7 0 ?v 5) = 8"
    using t c c4 by simp
  moreover have "GetCapacity (Reserve 7 0 ?v 5) = 5"
    and "length (items (Reserve 7 0 ?v 5)) = 8"
    using t c c4 by simp_all
  ultimately show ?thesis using v f p c pb ins by blast
qed

text \<open>
  C6 as stated fails for \<open>Reserve\<close>: on the vector built from the list \<open>{1, 2, 3, 4}\<close>, of
  size 4 and capacity 4, \<open>Reserve(5)\<close> yields the capacity 5, and not \<open>max (4 * 2) 5 = 8\<close>.
\<close>

theorem C6_reserve_counterexample:
  "SimpleVector_init 7 [1, 2, 3, 4 :: nat] = \<lparr>items = [1, 2, 3, 4], vsize = 4, capacity = 4\<rparr> \<and>
   Reserve 7 0 (SimpleVector_init 7 [1, 2, 3, 4 :: nat]) 5 =
     \<lparr>items = [1, 2, 3, 4, 0, 0, 0, 0], vsize = 4, capacity = 5\<rparr> \<and>
   GetCapacity (SimpleVector_init 7 [1, 2, 3, 4 :: nat]) < 5 \<and>
   max (GetCapacity (SimpleVector_init 7 [1, 2, 3, 4 :: nat]) * 2) 5 = 8 \<and>
   GetCapacity (Reserve 7 0 (SimpleVector_init 7 [1, 2, 3, 4 :: nat]) 5) \<noteq>
     max (GetCapacity (SimpleVector_init 7 [1, 2, 3, 4 :: nat]) * 2) 5"
proof -
  have v: "SimpleVector_init 7 [1, 2, 3, 4 :: nat] =
      \<lparr>items = [1, 2, 3, 4], vsize = 4, capacity = 4\<rparr>"
    by (simp add: SimpleVector_init_def ArrayPtr_new_def begin_it_def Let_def copy.simps
        numeral_eq_Suc)
  have r: "Reserve 7 0 \<lparr>items = [1, 2, 3, 4 :: nat], vsize = 4, capacity = 4\<rparr> 5 =
      \<lparr>items = [1, 2, 3, 4, 0, 0, 0, 0], vsize = 4, capacity = 5\<rparr>"
    by (simp add: Reserve_def Resize_def NewCapacity_def SimpleVector_sized_def ArrayPtr_new_def
        swap_def begin_it_def end_it_def Let_def generate.simps copy.simps numeral_eq_Suc)
  show ?thesis
    unfolding v r by (simp add: GetCapacity_def)
qed

subsection \<open>Claim C7\<close>

text \<open>
  C7 (as amended). The source of a move construction is left with size 0, capacity 0 and
  no buffer, and the new vector has the source's former state. The source of a move
  assignment is not emptied: between two distinct objects the assignment swaps the two
  states, so the source holds the size, capacity and buffer the destination had; a self
  move assignment changes nothing.
\<close>

theorem C7_moved_from:
  "GetSize (snd (SimpleVector_move w)) = 0 \<and>
   GetCapacity (snd (SimpleVector_move w)) = 0 \<and>
   items (snd (SimpleVector_move w)) = ArrayPtr_null \<and>
   fst (SimpleVector_move w) = w \<and>
   (this \<noteq> other \<and> this < length s \<and> other < length s \<longrightarrow>
      move_assign s this other ! other = s ! this \<and>
      move_assign s this other ! this = s ! other) \<and>
   move_assign s this this = s"
  by (simp add: SimpleVector_move_def GetSize_def GetCapacity_def move_assign_def swap_def)

theorem C7_moved_from_witness:
  "(0 :: nat) \<noteq> 1 \<and>
   (0 :: nat) < length [\<lparr>items = [1 :: nat], vsize = 1, capacity = 1\<rparr>,
                        \<lparr>items = [2, 3], vsize = 2, capacity = 2\<rparr>] \<and>
   (1 :: nat) < length [\<lparr>items = [1 :: nat], vsize = 1, capacity = 1\<rparr>,
                        \<lparr>items = [2, 3], vsize = 2, capacity = 2\<rparr>] \<and>
   move_assign [\<lparr>items = [1 :: nat], vsize = 1, capacity = 1\<rparr>,
                \<lparr>items = [2, 3], vsize = 2, capacity = 2\<rparr>] 0 1 =
     [\<lparr>items = [2, 3], vsize = 2, capacity = 2\<rparr>,
      \<lparr>items = [1], vsize = 1, capacity = 1\<rparr>] \<and>
   SimpleVector_move \<lparr>items = [2, 3 :: nat], vsize = 2, capacity = 2\<rparr> =
     (\<lparr>items = [2, 3], vsize = 2, capacity = 2\<rparr>, \<lparr>items = [], vsize = 0, capacity = 0\<rparr>)"
proof -
  let ?a = "\<lparr>items = [1 :: nat], vsize = 1, capacity = 1\<rparr>"
  let ?b = "\<lparr>items = [2, 3 :: nat], vsize = 2, capacity = 2\<rparr>"
  let ?s = "[?a, ?b]"
  have h: "(0 :: nat) \<noteq> 1" "(0 :: nat) < length ?s" "(1 :: nat) < length ?s"
    by simp_all
  have "length (move_assign ?s 0 1) = 2"
    by (simp add: move_assign_def)
  moreover have "move_assign ?s 0 1 ! 1 = ?a" and "move_assign ?s 0 1 ! 0 = ?b"
    using C7_moved_from [of ?b 0 1 ?s] by simp_all
  ultimately have m: "move_assign ?s 0 1 = [?b, ?a]"
    by (simp add: list_eq_iff_nth_eq less_Suc_eq numeral_2_eq_2)
  have "snd (SimpleVector_move ?b) = \<lparr>items = [], vsize = 0, capacity = 0\<rparr>"
    and "fst (SimpleVector_move ?b) = ?b"
    using C7_moved_from [of ?b 0 1 ?s]
    by (simp_all add: GetSize_def GetCapacity_def ArrayPtr_null_def SimpleVector_move_def)
  then have "SimpleVector_move ?b = (?b, \<lparr>items = [], vsize = 0, capacity = 0\<rparr>)"
    by (metis prod.collapse)
  with h m show ?thesis by blast
qed

text \<open>
  C7 as stated fails for the move assignment: with \<open>a = {1}\<close> at address 0 and
  \<open>b = {2, 3}\<close> at address 1, after \<^verbatim>\<open>a = std::move(b)\<close> the source \<open>b\<close> has size 1,
  capacity 1 and the buffer that \<open>a\<close> had.
\<close>

theorem C7_move_assign_counterexample:
  "SimpleVector_init 7 [1 :: nat] = \<lparr>items = [1], vsize = 1, capacity = 1\<rparr> \<and>
   SimpleVector_init 7 [2, 3 :: nat] = \<lparr>items = [2, 3], vsize = 2, capacity = 2\<rparr> \<and>
   move_assign [SimpleVector_init 7 [1 :: nat], SimpleVector_init 7 [2, 3]] 0 1 =
     [\<lparr>items = [2, 3], vsize = 2, capacity = 2\<rparr>, \<lparr>items = [1], vsize = 1, capacity = 1\<rparr>] \<and>
   GetSize (move_assign [SimpleVector_init 7 [1 :: nat], SimpleVector_init 7 [2, 3]] 0 1 ! 1) \<noteq> 0 \<and>
   GetCapacity (move_assign [SimpleVector_init 7 [1 :: nat], SimpleVector_init 7 [2, 3]] 0 1 ! 1)
     \<noteq> 0 \<and>
   items (move_assign [SimpleVector_init 7 [1 :: nat], SimpleVector_init 7 [2, 3]] 0 1 ! 1)
     \<noteq> ArrayPtr_null"
proof -
  have a: "SimpleVector_init 7 [1 :: nat] = \<lparr>items = [1], vsize = 1, capacity = 1\<rparr>"
    by (simp add: SimpleVector_init_def ArrayPtr_new_def begin_it_def Let_def copy.simps)
  have b: "SimpleVector_init 7 [2, 3 :: nat] = \<lparr>items = [2, 3], vsize = 2, capacity = 2\<rparr>"
    by (simp add: SimpleVector_init_def ArrayPtr_new_def begin_it_def Let_def copy.simps
        numeral_eq_Suc)
  show ?thesis
    unfolding a b
    by (simp add: move_assign_def swap_def GetSize_def GetCapacity_def ArrayPtr_null_def)
qed

subsection \<open>Claim C8\<close>

text \<open>
  C8. \<open>At\<close> at index \<open>i\<close> throws \<^verbatim>\<open>std::out_of_range\<close> iff \<open>i\<close> is at least the size; whenever it
  fails, the error is that exception and the vector (size, capacity and every slot) is as
  before the call; and for \<open>i\<close> below the size it returns the element in slot \<open>i\<close>, again
  leaving the vector as it was.
\<close>

theorem C8_at:
  "(fst (At v i) = Inl out_of_range \<longleftrightarrow> GetSize v \<le> i) \<and>
   (\<forall>e. fst (At v i) = Inl e \<longrightarrow> e = out_of_range \<and> snd (At v i) = v) \<and>
   (i < GetSize v \<longrightarrow> At v i = (Inr (items v ! i), v))"
  by (simp add: At_def GetSize_def)

theorem C8_at_witness:
  "\<not> GetSize \<lparr>items = [1, 9, 3, 0 :: nat], vsize = 3, capacity = 4\<rparr> \<le> 1 \<and>
   GetSize \<lparr>items = [1, 9, 3, 0 :: nat], vsize = 3, capacity = 4\<rparr> \<le> 10 \<and>
   At \<lparr>items = [1, 9, 3, 0 :: nat], vsize = 3, capacity = 4\<rparr> 1 =
     (Inr 9, \<lparr>items = [1, 9, 3, 0], vsize = 3, capacity = 4\<rparr>) \<and>
   At \<lparr>items = [1, 9, 3, 0 :: nat], vsize = 3, capacity = 4\<rparr> 10 =
     (Inl out_of_range, \<lparr>items = [1, 9, 3, 0], vsize = 3, capacity = 4\<rparr>) \<and>
   At \<lparr>items = [1, 9, 3, 0 :: nat], vsize = 3, capacity = 4\<rparr> 3 =
     (Inl out_of_range, \<lparr>items = [1, 9, 3, 0], vsize = 3, capacity = 4\<rparr>)"
proof -
  let ?v = "\<lparr>items = [1, 9, 3, 0 :: nat], vsize = 3, capacity = 4\<rparr>"
  have s1: "\<not> GetSize ?v \<le> 1" and s10: "GetSize ?v \<le> 10" and s3: "GetSize ?v \<le> 3"
    by (simp_all add: GetSize_def)
  have "At ?v 1 = (Inr 9, ?v)"
    using C8_at [of ?v 1] s1 by simp
  moreover have "At ?v 10 = (Inl out_of_range, ?v)"
    using C8_at [of ?v 10] s10 by (metis prod.collapse)
  moreover have "At ?v 3 = (Inl out_of_range, ?v)"
    using C8_at [of ?v 3] s3 by (metis prod.collapse)
  ultimately show ?thesis using s1 s10 by blast
qed

subsection \<open>Claim C9\<close>

text \<open>
  C9 says that every operation preserves \<open>0 \<le> size \<le> capacity\<close> with all slots in
  \<open>[0, size)\<close> holding valid element values. The code breaks the second part when the
  argument of \<open>PushBack\<close> or \<open>Insert\<close> refers to an element of the vector itself and the
  vector is full: for \<^verbatim>\<open>SimpleVector<int> v{1, 2, 3}; v.PushBack(v[0]);\<close> the element
  \<^verbatim>\<open>v[0]\<close> is 1, \<open>IncCapacity\<close> deletes the array that \<open>item\<close> refers to, and
  \<^verbatim>\<open>items_[size_++] = item\<close> then stores what the deleted array holds, \<open>freed 0\<close>, in the
  new slot 3 of \<open>[0, size)\<close>; \<^verbatim>\<open>v.Insert(v.begin(), v[0])\<close> does the same in slot 0. On a
  vector that is not full, the same \<open>PushBack\<close> stores the 1.
\<close>

theorem C9_dangling_argument:
  "SimpleVector_init ini [1, 2, 3 :: nat] = \<lparr>items = [1, 2, 3], vsize = 3, capacity = 3\<rparr> \<and>
   index (SimpleVector_init ini [1, 2, 3 :: nat]) 0 = Inr 1 \<and>
   PushBack ini 0 freed (SimpleVector_init ini [1, 2, 3 :: nat]) (slot 0) =
     \<lparr>items = [1, 2, 3, freed 0, 0, 0], vsize = 4, capacity = 6\<rparr> \<and>
   elements (PushBack ini 0 freed (SimpleVector_init ini [1, 2, 3 :: nat]) (slot 0)) =
     [1, 2, 3, freed 0] \<and>
   Insert ini 0 freed (SimpleVector_init ini [1, 2, 3 :: nat]) 0 (slot 0) =
     Inr (\<lparr>items = [freed 0, 1, 2, 3, 0, 0], vsize = 4, capacity = 6\<rparr>, 0) \<and>
   PushBack ini 0 freed \<lparr>items = [1, 2, 3, 8 :: nat], vsize = 3, capacity = 4\<rparr> (slot 0) =
     \<lparr>items = [1, 2, 3, 1], vsize = 4, capacity = 4\<rparr>"
proof -
  let ?v = "\<lparr>items = [1, 2, 3 :: nat], vsize = 3, capacity = 3\<rparr>"
  have v: "SimpleVector_init ini [1, 2, 3 :: nat] = ?v"
    by (simp add: SimpleVector_init_def ArrayPtr_new_def begin_it_def Let_def copy.simps
        numeral_eq_Suc)
  have i: "index ?v 0 = Inr 1"
    by (simp add: index_def)
  have pb: "PushBack ini 0 freed ?v (slot 0) =
      \<lparr>items = [1, 2, 3, freed 0, 0, 0], vsize = 4, capacity = 6\<rparr>"
    by (simp add: PushBack_def read_ref_def IsFull_def IncCapacity_def NewCapacity_def
        SimpleVector_sized_def ArrayPtr_new_def swap_def begin_it_def end_it_def Let_def
        generate.simps copy.simps numeral_eq_Suc)
  have el: "elements \<lparr>items = [1, 2, 3, freed 0, 0, 0], vsize = 4, capacity = 6\<rparr> =
      [1, 2, 3, freed 0]"
    by (simp add: elements_eq numeral_eq_Suc)
  have ins: "Insert ini 0 freed ?v 0 (slot 0) =
      Inr (\<lparr>items = [freed 0, 1, 2, 3, 0, 0], vsize = 4, capacity = 6\<rparr>, 0)"
    by (simp add: Insert_def read_ref_def IsFull_def IncCapacity_def NewCapacity_def
        SimpleVector_sized_def ArrayPtr_new_def swap_def begin_it_def end_it_def Let_def
        generate.simps copy.simps copy_backward.simps numeral_eq_Suc)
  have nf: "PushBack ini 0 freed \<lparr>items = [1, 2, 3, 8 :: nat], vsize = 3, capacity = 4\<rparr> (slot 0) =
      \<lparr>items = [1, 2, 3, 1], vsize = 4, capacity = 4\<rparr>"
    by (simp add: PushBack_def read_ref_def IsFull_def Let_def)
  show ?thesis
    unfolding v pb by (intro conjI refl i el ins nf)
qed

text \<open>
  Reading the argument late is visible without any reallocation too: on the buffer
  \<open>[1, 2, 3, 8]\<close> with size 3, \<^verbatim>\<open>v.Insert(v.begin(), v[2])\<close> shifts the elements first and then
  reads slot 2, which by then holds 2, so it inserts 2 and not 3. Every slot in
  \<open>[0, size)\<close> still holds an element value here.
\<close>

lemma Insert_reads_after_shift:
  "Insert ini dflt freed \<lparr>items = [1, 2, 3, 8 :: nat], vsize = 3, capacity = 4\<rparr> 0 (slot 2) =
     Inr (\<lparr>items = [2, 1, 2, 3], vsize = 4, capacity = 4\<rparr>, 0)"
  by (simp add: Insert_def read_ref_def IsFull_def begin_it_def end_it_def Let_def
      copy_backward.simps numeral_eq_Suc)

subsection \<open>Claim C10\<close>

text \<open>
  C10. \<open>PopBack\<close> leaves the capacity and every element before the removed last position
  unchanged; \<open>Erase\<close> at a position \<open>pos\<close> below the size succeeds, leaves the capacity
  unchanged and leaves every element before \<open>pos\<close> unchanged.
\<close>

theorem C10_erase_popback_frame:
  assumes "vector_inv v"
  shows "GetCapacity (PopBack v) = GetCapacity v \<and>
         (\<forall>i<GetSize v - 1. items (PopBack v) ! i = items v ! i) \<and>
         (pos < GetSize v \<longrightarrow>
            (\<exists>v' it. Erase v pos = Inr (v', it) \<and> GetCapacity v' = GetCapacity v \<and>
               (\<forall>i<pos. items v' ! i = items v ! i)))"
proof (intro conjI impI)
  show "GetCapacity (PopBack v) = GetCapacity v"
    by (simp add: PopBack_def GetCapacity_def)
  show "\<forall>i<GetSize v - 1. items (PopBack v) ! i = items v ! i"
    by (simp add: PopBack_def)
next
  assume "pos < GetSize v"
  then have pos: "pos < vsize v"
    by (simp add: GetSize_def)
  then obtain v' where v': "Erase v pos = Inr (v', pos)" "vector_inv v'"
    "vsize v' = vsize v - 1" "capacity v' = capacity v"
    "elements v' = take pos (elements v) @ drop (Suc pos) (elements v)"
    using Erase_props [OF assms] by blast
  have "items v' ! i = items v ! i" if "i < pos" for i
  proof -
    have "i < vsize v'" "i < vsize v"
      using that pos v'(3) by simp_all
    then have "items v' ! i = elements v' ! i" "items v ! i = elements v ! i"
      using elements_nth [OF v'(2)] elements_nth [OF assms] by simp_all
    then show ?thesis
      using that pos elements_length [OF assms] by (simp add: v'(5) nth_append)
  qed
  then show "\<exists>v' it. Erase v pos = Inr (v', it) \<and> GetCapacity v' = GetCapacity v \<and>
               (\<forall>i<pos. items v' ! i = items v ! i)"
    using v'(1,4) by (simp add: GetCapacity_def)
qed

theorem C10_erase_popback_frame_witness:
  "vector_inv \<lparr>items = [1, 9, 2, 3 :: nat], vsize = 4, capacity = 4\<rparr> \<and>
   2 < GetSize \<lparr>items = [1, 9, 2, 3 :: nat], vsize = 4, capacity = 4\<rparr> \<and>
   Erase \<lparr>items = [1, 9, 2, 3 :: nat], vsize = 4, capacity = 4\<rparr> 2 =
     Inr (\<lparr>items = [1, 9, 3, 3], vsize = 3, capacity = 4\<rparr>, 2) \<and>
   PopBack \<lparr>items = [1, 9, 2, 3 :: nat], vsize = 4, capacity = 4\<rparr> =
     \<lparr>items = [1, 9, 2, 3], vsize = 3, capacity = 4\<rparr> \<and>
   GetCapacity (PopBack \<lparr>items = [1, 9, 2, 3 :: nat], vsize = 4, capacity = 4\<rparr>) =
     GetCapacity \<lparr>items = [1, 9, 2, 3 :: nat], vsize = 4, capacity = 4\<rparr> \<and>
   GetCapacity \<lparr>items = [1, 9, 3, 3 :: nat], vsize = 3, capacity = 4\<rparr> =
     GetCapacity \<lparr>items = [1, 9, 2, 3 :: nat], vsize = 4, capacity = 4\<rparr>"
proof -
  let ?v = "\<lparr>items = [1, 9, 2, 3 :: nat], vsize = 4, capacity = 4\<rparr>"
  have v: "vector_inv ?v" and p: "2 < GetSize ?v"
    by (simp_all add: vector_inv_def GetSize_def)
  have e: "Erase ?v 2 = Inr (\<lparr>items = [1, 9, 3, 3], vsize = 3, capacity = 4\<rparr>, 2)"
    by (simp add: Erase_def begin_it_def end_it_def Let_def move_range.simps numeral_eq_Suc)
  have pb: "PopBack ?v = \<lparr>items = [1, 9, 2, 3], vsize = 3, capacity = 4\<rparr>"
    by (simp add: PopBack_def IsEmpty_def)
  have "GetCapacity (PopBack ?v) = GetCapacity ?v"
    using C10_erase_popback_frame [OF v] by blast
  moreover have "GetCapacity \<lparr>items = [1, 9, 3, 3 :: nat], vsize = 3, capacity = 4\<rparr> =
      GetCapacity ?v"
    using C10_erase_popback_frame [OF v, of 2] p e by auto
  ultimately show ?thesis using v p e pb by blast
qed

end
